theory Spec2Isabelle
  imports Complex_Main "HOL-Library.Extended_Nat" "HOL-Library.Multiset"
begin

section \<open>JavaScript values used by the route sequencing code\<close>

text \<open>
  Distances are the \<^verbatim>\<open>distance.value\<close> figures of the mapping provider (whole metres) or
  JavaScript's \<^verbatim>\<open>Infinity\<close>: an \<^typ>\<open>enat\<close>. A JavaScript number is such a distance or
  \<^verbatim>\<open>NaN\<close>, which is what \<^verbatim>\<open>undefined\<close> turns into under \<^verbatim>\<open>+\<close> and \<^verbatim>\<open><\<close>.
\<close>

datatype jsnum = NaN | Num enat

fun jsLess :: "jsnum \<Rightarrow> jsnum \<Rightarrow> bool" where
  "jsLess (Num a) (Num b) = (a < b)"
| "jsLess _ _ = False"

fun jsAdd :: "jsnum \<Rightarrow> jsnum \<Rightarrow> jsnum" where
  "jsAdd (Num a) (Num b) = Num (a + b)"
| "jsAdd _ _ = NaN"

text \<open>
  Every function of the engine wraps its body in \<^verbatim>\<open>try { ... } catch\<close> and throws an
  \<^verbatim>\<open>Error\<close> with a message of its own; an error value names the message. \<open>TypeError\<close> is
  the exception of a property read on \<^verbatim>\<open>undefined\<close> or \<^verbatim>\<open>null\<close>.
\<close>

datatype error =
    TypeError
  | UpstreamFailure
  | FailedDistanceMatrix
  | FailedGeocode
  | FailedOptimizeRoute
  | FailedRouteMetrics
  | FailedReoptimizeRoute
  | FailedOptimizeTSP
  | FailedTSPRouteMetrics

section \<open>algorithms/tsp.js: nearest neighbour and 2-opt on a numeric matrix\<close>

type_synonym matrix = "enat list list"

text \<open>
  \<^verbatim>\<open>distanceMatrix[a][b]\<close>: a missing row is \<^verbatim>\<open>undefined\<close> and the read of \<^verbatim>\<open>[b]\<close> on it
  throws; a missing column reads \<^verbatim>\<open>undefined\<close>, a \<open>NaN\<close> in every use the code makes of it.
\<close>

definition matrixAt :: "matrix \<Rightarrow> nat \<Rightarrow> nat \<Rightarrow> error + jsnum" where
  "matrixAt distanceMatrix a b =
     (if a < length distanceMatrix
      then (if b < length (distanceMatrix ! a) then Inr (Num (distanceMatrix ! a ! b)) else Inr NaN)
      else Inl TypeError)"

text \<open>
  The \<^verbatim>\<open>for\<close> loop of \<^verbatim>\<open>nearestNeighbor\<close> over \<open>i = 0 .. numPoints - 1\<close>, with the pair
  \<open>(nearestPoint, minDistance)\<close> as its state; \<open>nearestPoint = -1\<close> is \<open>None\<close>. The matrix is
  read only when \<open>visited[i]\<close> is false (\<^verbatim>\<open>&&\<close> short-circuits).
\<close>

fun scanNearest ::
  "matrix \<Rightarrow> bool list \<Rightarrow> nat \<Rightarrow> nat list \<Rightarrow> nat option \<times> jsnum \<Rightarrow> error + (nat option \<times> jsnum)"
where
  "scanNearest distanceMatrix visited currentPoint [] st = Inr st"
| "scanNearest distanceMatrix visited currentPoint (i # rest) (nearestPoint, minDistance) =
     (if \<not> visited ! i
      then (case matrixAt distanceMatrix currentPoint i of
              Inl e \<Rightarrow> Inl e
            | Inr d \<Rightarrow>
                if jsLess d minDistance
                then scanNearest distanceMatrix visited currentPoint rest (Some i, d)
                else scanNearest distanceMatrix visited currentPoint rest (nearestPoint, minDistance))
      else scanNearest distanceMatrix visited currentPoint rest (nearestPoint, minDistance))"

text \<open>The \<^verbatim>\<open>while (tour.length < numPoints)\<close> loop; \<^verbatim>\<open>break\<close> returns the tour built so far.\<close>

function nnLoop :: "matrix \<Rightarrow> bool list \<Rightarrow> nat list \<Rightarrow> error + nat list" where
  "nnLoop distanceMatrix visited tour =
     (if length tour < length distanceMatrix
      then (case scanNearest distanceMatrix visited (last tour) [0..<length distanceMatrix]
                   (None, Num \<infinity>) of
              Inl e \<Rightarrow> Inl e
            | Inr (None, _) \<Rightarrow> Inr tour
            | Inr (Some nearestPoint, _) \<Rightarrow>
                nnLoop distanceMatrix (visited[nearestPoint := True]) (tour @ [nearestPoint]))
      else Inr tour)"
  by pat_completeness auto
termination
  by (relation "measure (\<lambda>(distanceMatrix, visited, tour). length distanceMatrix - length tour)") auto

declare nnLoop.simps [simp del]

text \<open>
  \<^verbatim>\<open>visited[startIndex] = true\<close> with \<open>startIndex\<close> beyond the array grows the JavaScript
  array; the loops read \<open>visited[i]\<close> for \<open>i < numPoints\<close> only, where the list update of HOL
  (which leaves the list alone) reads the same.
\<close>

definition nearestNeighbor :: "matrix \<Rightarrow> nat \<Rightarrow> error + nat list" where
  "nearestNeighbor distanceMatrix startIndex =
     nnLoop distanceMatrix ((replicate (length distanceMatrix) False)[startIndex := True]) [startIndex]"

text \<open>\<^verbatim>\<open>calculateTourDistance\<close>: the sum of the consecutive legs, no leg back to the start.\<close>

fun sumLegs :: "matrix \<Rightarrow> nat list \<Rightarrow> jsnum \<Rightarrow> error + jsnum" where
  "sumLegs distanceMatrix (a # b # rest) totalDistance =
     (case matrixAt distanceMatrix a b of
        Inl e \<Rightarrow> Inl e
      | Inr d \<Rightarrow> sumLegs distanceMatrix (b # rest) (jsAdd totalDistance d))"
| "sumLegs distanceMatrix _ totalDistance = Inr totalDistance"

definition calculateTourDistance :: "nat list \<Rightarrow> matrix \<Rightarrow> error + jsnum" where
  "calculateTourDistance tour distanceMatrix = sumLegs distanceMatrix tour (Num 0)"

text \<open>
  The inner \<^verbatim>\<open>while (left < right)\<close> of \<^verbatim>\<open>twoOptImprovement\<close>: swap the two ends and move
  inwards. It is entered with \<open>left = i + 1\<close> and \<open>right = j < length newTour\<close>.
\<close>

function reverseSegment :: "nat list \<Rightarrow> nat \<Rightarrow> nat \<Rightarrow> nat list" where
  "reverseSegment newTour left right =
     (if left < right
      then reverseSegment (newTour[left := newTour ! right, right := newTour ! left])
             (left + 1) (right - 1)
      else newTour)"
  by pat_completeness auto
termination
  by (relation "measure (\<lambda>(newTour, left, right). right - left)") auto

declare reverseSegment.simps [simp del]

text \<open>
  The pairs \<open>(i, j)\<close> in the order the nested \<^verbatim>\<open>for\<close> loops visit them:
  \<open>i = 0 .. length - 3\<close>, \<open>j = i + 2 .. length - 1\<close>. (The \<^verbatim>\<open>j === i + 1\<close> test never holds.)
\<close>

definition swapPairs :: "nat \<Rightarrow> (nat \<times> nat) list" where
  "swapPairs n = concat (map (\<lambda>i. map (\<lambda>j. (i, j)) [i + 2..<n]) [0..<n - 2])"

text \<open>
  One pass of the nested loops: the first pair whose reversed tour is strictly shorter ends
  the pass (\<^verbatim>\<open>break\<close>, \<^verbatim>\<open>break\<close>) with the new tour and its distance.
\<close>

fun firstImprovement ::
  "matrix \<Rightarrow> nat list \<Rightarrow> jsnum \<Rightarrow> (nat \<times> nat) list \<Rightarrow> error + (nat list \<times> jsnum) option"
where
  "firstImprovement distanceMatrix bestTour bestDistance [] = Inr None"
| "firstImprovement distanceMatrix bestTour bestDistance ((i, j) # rest) =
     (let newTour = reverseSegment bestTour (i + 1) j in
      case calculateTourDistance newTour distanceMatrix of
        Inl e \<Rightarrow> Inl e
      | Inr newDistance \<Rightarrow>
          if jsLess newDistance bestDistance then Inr (Some (newTour, newDistance))
          else firstImprovement distanceMatrix bestTour bestDistance rest)"

text \<open>The outer \<^verbatim>\<open>while (improved && iteration < maxIterations)\<close>.\<close>

function twoOptLoop :: "matrix \<Rightarrow> nat list \<Rightarrow> jsnum \<Rightarrow> nat \<Rightarrow> nat \<Rightarrow> error + nat list" where
  "twoOptLoop distanceMatrix bestTour bestDistance iteration maxIterations =
     (if iteration < maxIterations
      then (case firstImprovement distanceMatrix bestTour bestDistance
                   (swapPairs (length bestTour)) of
              Inl e \<Rightarrow> Inl e
            | Inr None \<Rightarrow> Inr bestTour
            | Inr (Some (newTour, newDistance)) \<Rightarrow>
                twoOptLoop distanceMatrix newTour newDistance (iteration + 1) maxIterations)
      else Inr bestTour)"
  by pat_completeness auto
termination
  by (relation "measure (\<lambda>(distanceMatrix, bestTour, bestDistance, iteration, maxIterations).
        maxIterations - iteration)") auto

declare twoOptLoop.simps [simp del]

definition twoOptImprovement :: "nat list \<Rightarrow> matrix \<Rightarrow> nat \<Rightarrow> error + nat list" where
  "twoOptImprovement tour distanceMatrix maxIterations =
     (case calculateTourDistance tour distanceMatrix of
        Inl e \<Rightarrow> Inl e
      | Inr bestDistance \<Rightarrow> twoOptLoop distanceMatrix tour bestDistance 0 maxIterations)"

text \<open>The scenario matrix of four points H, A, B, C (indices 0 to 3).\<close>

definition scenarioMetres :: "nat list list" where
  "scenarioMetres =
     [[0, 1, 10, 10],
      [1, 0, 1, 9],
      [10, 1, 0, 1],
      [10, 9, 1, 0]]"

definition scenarioMatrix :: matrix where
  "scenarioMatrix = map (map enat) scenarioMetres"

text \<open>Two points with no finite edge between them.\<close>

definition unreachableMatrix :: matrix where
  "unreachableMatrix = [[0, \<infinity>], [\<infinity>, 0]]"

text \<open>Well-formed inputs of the two functions: a square matrix, a tour of its indices.\<close>

definition squareMatrix :: "'a list list \<Rightarrow> bool" where
  "squareMatrix distanceMatrix = (\<forall>row \<in> set distanceMatrix. length row = length distanceMatrix)"

definition validTour :: "nat list \<Rightarrow> matrix \<Rightarrow> bool" where
  "validTour tour distanceMatrix = (\<forall>p \<in> set tour. p < length distanceMatrix)"

definition finiteMatrix :: "matrix \<Rightarrow> bool" where
  "finiteMatrix distanceMatrix = (\<forall>row \<in> set distanceMatrix. \<forall>d \<in> set row. d \<noteq> \<infinity>)"

text \<open>
  Reversing the segment from \<open>i + 1\<close> to \<open>j\<close> makes the tour strictly shorter: the test
  \<^verbatim>\<open>newDistance < bestDistance\<close> of the pair \<open>(i, j)\<close>.
\<close>

definition improvingReversal :: "nat list \<Rightarrow> matrix \<Rightarrow> nat \<Rightarrow> nat \<Rightarrow> bool" where
  "improvingReversal tour distanceMatrix i j =
     (case calculateTourDistance (reverseSegment tour (i + 1) j) distanceMatrix of
        Inl e \<Rightarrow> False
      | Inr newDistance \<Rightarrow>
          (case calculateTourDistance tour distanceMatrix of
             Inl e \<Rightarrow> False
           | Inr bestDistance \<Rightarrow> jsLess newDistance bestDistance))"

text \<open>The loop invariant of \<open>nnLoop\<close>: the tour lists exactly the visited indices, once each.\<close>

definition nnInv :: "matrix \<Rightarrow> bool list \<Rightarrow> nat list \<Rightarrow> bool" where
  "nnInv m visited tour \<longleftrightarrow>
     length visited = length m \<and> tour \<noteq> [] \<and> distinct tour \<and>
     (\<forall>p \<in> set tour. p < length m \<and> visited ! p) \<and>
     (\<forall>i < length m. visited ! i \<longrightarrow> i \<in> set tour)"


section \<open>services/googleMaps.js: the distance matrix of the mapping provider\<close>

text \<open>
  An element of the provider's answer and a cell of the matrix built from it. The
  \<^verbatim>\<open>distance\<close> and \<^verbatim>\<open>duration\<close> objects \<^verbatim>\<open>{text, value}\<close> are kept as their \<^verbatim>\<open>value\<close>;
  \<open>None\<close> is an absent property.
\<close>

record cell =
  distance :: "nat option"
  duration :: "nat option"
  duration_in_traffic :: "nat option"

record element = cell +
  status :: string

record response =
  dataStatus :: string
  dataRows :: "element list list"

text \<open>A cell is \<^verbatim>\<open>null\<close> (\<open>None\<close>) for an unreachable destination.\<close>

type_synonym rawMatrix = "cell option list list"

record point =
  lat :: "rat option"
  lng :: "rat option"
  address :: "string option"
  formattedAddress :: "string option"

text \<open>
  The collaborators of the engine. \<open>cacheGet\<close> is \<^verbatim>\<open>cacheWithExpiry.get\<close> under the key made
  of the points and the traffic flag (a stored matrix is the one an earlier call returned
  for the same key; \<^verbatim>\<open>cacheWithExpiry.set\<close> is not traced). \<open>httpGet\<close> is the request to the
  provider, which may reject. \<open>geocode\<close> is \<^verbatim>\<open>geocodeAddress\<close>. \<open>fl\<close> rounds the quotient
  of a total by 1000 or by 60 to the double the program holds. A point of a list may be
  \<^verbatim>\<open>undefined\<close> (\<open>None\<close>): \<^verbatim>\<open>allPoints[index]\<close> beyond the array is.
\<close>

record env =
  cacheGet :: "point option list \<Rightarrow> bool \<Rightarrow> rawMatrix option"
  httpGet :: "point list \<Rightarrow> bool \<Rightarrow> error + response"
  geocode :: "string \<Rightarrow> error + point"
  fl :: "rat \<Rightarrow> rat"

definition formatElement :: "element \<Rightarrow> cell option" where
  "formatElement element =
     (if status element = ''OK''
      then Some \<lparr>distance = distance element, duration = duration element,
                 duration_in_traffic = duration_in_traffic element\<rparr>
      else None)"

text \<open>
  \<^verbatim>\<open>getDistanceMatrix\<close>. Reading \<^verbatim>\<open>point.lat\<close> of an \<^verbatim>\<open>undefined\<close> point throws, like a rejected
  request and a top-level status other than \<^verbatim>\<open>OK\<close>; the \<^verbatim>\<open>catch\<close> turns each into the same
  error.
\<close>

definition getDistanceMatrix :: "env \<Rightarrow> point option list \<Rightarrow> bool \<Rightarrow> error + rawMatrix" where
  "getDistanceMatrix e points considerTraffic =
     (case cacheGet e points considerTraffic of
        Some cachedResult \<Rightarrow> Inr cachedResult
      | None \<Rightarrow>
          if None \<in> set points then Inl FailedDistanceMatrix
          else (case httpGet e (map the points) considerTraffic of
                  Inl err \<Rightarrow> Inl FailedDistanceMatrix
                | Inr resp \<Rightarrow>
                    if dataStatus resp \<noteq> ''OK'' then Inl FailedDistanceMatrix
                    else Inr (map (map formatElement) (dataRows resp))))"

section \<open>algorithms/dijkstra.js: the frontier heuristic\<close>

text \<open>
  The values the loop of \<^verbatim>\<open>findOptimalRoute\<close> compares with \<^verbatim>\<open><\<close>: numbers, \<^verbatim>\<open>null\<close>, cell
  objects and \<^verbatim>\<open>undefined\<close>. \<^verbatim>\<open><\<close> converts both sides to numbers: \<^verbatim>\<open>null\<close> to 0, an object
  (through the string \<^verbatim>\<open>[object Object]\<close>) and \<^verbatim>\<open>undefined\<close> to \<open>NaN\<close>.
\<close>

datatype jsval = JNumber jsnum | JNull | JObject cell | JUndefined

fun toNumber :: "jsval \<Rightarrow> jsnum" where
  "toNumber (JNumber x) = x"
| "toNumber JNull = Num 0"
| "toNumber (JObject c) = NaN"
| "toNumber JUndefined = NaN"

definition jsvLess :: "jsval \<Rightarrow> jsval \<Rightarrow> bool" where
  "jsvLess a b = jsLess (toNumber a) (toNumber b)"

definition cellValue :: "cell option \<Rightarrow> jsval" where
  "cellValue c = (case c of None \<Rightarrow> JNull | Some obj \<Rightarrow> JObject obj)"

definition valueAt :: "jsval list list \<Rightarrow> nat \<Rightarrow> nat \<Rightarrow> error + jsval" where
  "valueAt distanceMatrix a b =
     (if a < length distanceMatrix
      then (if b < length (distanceMatrix ! a) then Inr (distanceMatrix ! a ! b) else Inr JUndefined)
      else Inl TypeError)"

text \<open>
  The first \<^verbatim>\<open>for\<close> loop: lower \<open>distances[i]\<close> of every unvisited \<open>i\<close> by the edge from
  \<open>currentPoint\<close>. (\<open>previous\<close> is written and never read; it is left out.)
\<close>

fun relaxFrom ::
  "jsval list list \<Rightarrow> bool list \<Rightarrow> nat \<Rightarrow> nat list \<Rightarrow> jsval list \<Rightarrow> error + jsval list"
where
  "relaxFrom distanceMatrix visited currentPoint [] distances = Inr distances"
| "relaxFrom distanceMatrix visited currentPoint (i # rest) distances =
     (if \<not> visited ! i
      then (case valueAt distanceMatrix currentPoint i of
              Inl e \<Rightarrow> Inl e
            | Inr d \<Rightarrow>
                if jsvLess d (distances ! i)
                then relaxFrom distanceMatrix visited currentPoint rest (distances[i := d])
                else relaxFrom distanceMatrix visited currentPoint rest distances)
      else relaxFrom distanceMatrix visited currentPoint rest distances)"

text \<open>The second \<^verbatim>\<open>for\<close> loop: the unvisited index of least \<open>distances[i]\<close>, \<open>None\<close> for -1.\<close>

fun selectNext :: "bool list \<Rightarrow> jsval list \<Rightarrow> nat list \<Rightarrow> jsval \<times> nat option \<Rightarrow> jsval \<times> nat option" where
  "selectNext visited distances [] st = st"
| "selectNext visited distances (i # rest) (minDistance, nextPoint) =
     (if \<not> visited ! i \<and> jsvLess (distances ! i) minDistance
      then selectNext visited distances rest (distances ! i, Some i)
      else selectNext visited distances rest (minDistance, nextPoint))"

text \<open>The \<^verbatim>\<open>while (path.length < allPoints.length)\<close> loop, \<open>n\<close> the number of points.\<close>

function frontierLoop ::
  "jsval list list \<Rightarrow> nat \<Rightarrow> bool list \<Rightarrow> jsval list \<Rightarrow> nat list \<Rightarrow> nat \<Rightarrow> error + nat list"
where
  "frontierLoop distanceMatrix n visited distances path currentPoint =
     (if length path < n
      then (case relaxFrom distanceMatrix visited currentPoint [0..<n] distances of
              Inl e \<Rightarrow> Inl e
            | Inr distances' \<Rightarrow>
                (case selectNext visited distances' [0..<n] (JNumber (Num \<infinity>), None) of
                   (_, None) \<Rightarrow> Inr path
                 | (_, Some nextPoint) \<Rightarrow>
                     frontierLoop distanceMatrix n (visited[nextPoint := True]) distances'
                       (path @ [nextPoint]) nextPoint))
      else Inr path)"
  by pat_completeness auto
termination
  by (relation "measure (\<lambda>(distanceMatrix, n, visited, distances, path, currentPoint).
        n - length path)") auto

declare frontierLoop.simps [simp del]

text \<open>The path of indices the loop builds from the hub, index 0.\<close>

definition frontierPath :: "jsval list list \<Rightarrow> nat \<Rightarrow> error + nat list" where
  "frontierPath distanceMatrix n =
     frontierLoop distanceMatrix n ((replicate n False)[0 := True])
       ((replicate n (JNumber (Num \<infinity>)))[0 := JNumber (Num 0)]) [0] 0"

text \<open>\<^verbatim>\<open>allPoints[index]\<close>.\<close>

definition pointAt :: "'a option list \<Rightarrow> nat \<Rightarrow> 'a option" where
  "pointAt allPoints index = (if index < length allPoints then allPoints ! index else None)"

definition findOptimalRoute :: "env \<Rightarrow> point option list \<Rightarrow> point option \<Rightarrow> error + point option list" where
  "findOptimalRoute e points startPoint =
     (let allPoints = startPoint # points in
      case getDistanceMatrix e allPoints True of
        Inl err \<Rightarrow> Inl FailedOptimizeRoute
      | Inr distanceMatrix \<Rightarrow>
          (case frontierPath (map (map cellValue) distanceMatrix) (length allPoints) of
             Inl err \<Rightarrow> Inl FailedOptimizeRoute
           | Inr path \<Rightarrow> Inr (map (pointAt allPoints) path)))"


section \<open>Route metrics\<close>

text \<open>
  A metrics object; \<open>fuelSavingsPercentage\<close> is a property of the object that
  \<^verbatim>\<open>calculateTSPRouteMetrics\<close> returns only.
\<close>

record metrics =
  totalDistance :: rat
  totalTime :: rat
  fuelSavingsPercentage :: "string option"

text \<open>
  \<^verbatim>\<open>distanceMatrix[i][i + 1].distance.value\<close> and \<^verbatim>\<open>distanceMatrix[i][i + 1].duration.value\<close>: a
  missing row, a missing or \<^verbatim>\<open>null\<close> cell and an absent property all throw.
\<close>

definition legAt :: "rawMatrix \<Rightarrow> nat \<Rightarrow> error + (nat \<times> nat)" where
  "legAt distanceMatrix i =
     (if i < length distanceMatrix \<and> i + 1 < length (distanceMatrix ! i)
      then (case distanceMatrix ! i ! (i + 1) of
              None \<Rightarrow> Inl TypeError
            | Some c \<Rightarrow>
                (case distance c of
                   None \<Rightarrow> Inl TypeError
                 | Some metres \<Rightarrow>
                     (case duration c of
                        None \<Rightarrow> Inl TypeError
                      | Some seconds \<Rightarrow> Inr (metres, seconds))))
      else Inl TypeError)"

text \<open>
  The loop over \<open>i = 0 .. route.length - 2\<close> with the pair of \<open>totalDistance\<close> and
  \<open>totalTime\<close> as its state; the sums of whole numbers are exact.
\<close>

fun sumRoute :: "rawMatrix \<Rightarrow> nat list \<Rightarrow> nat \<times> nat \<Rightarrow> error + (nat \<times> nat)" where
  "sumRoute distanceMatrix [] totals = Inr totals"
| "sumRoute distanceMatrix (i # rest) (distanceSum, timeSum) =
     (case legAt distanceMatrix i of
        Inl e \<Rightarrow> Inl e
      | Inr (metres, seconds) \<Rightarrow>
          sumRoute distanceMatrix rest (distanceSum + metres, timeSum + seconds))"

definition routeTotals :: "env \<Rightarrow> point option list \<Rightarrow> error + (nat \<times> nat)" where
  "routeTotals e route =
     (case getDistanceMatrix e route True of
        Inl err \<Rightarrow> Inl err
      | Inr distanceMatrix \<Rightarrow> sumRoute distanceMatrix [0..<length route - 1] (0, 0))"

definition calculateRouteMetrics :: "env \<Rightarrow> point option list \<Rightarrow> error + metrics" where
  "calculateRouteMetrics e route =
     (case routeTotals e route of
        Inl err \<Rightarrow> Inl FailedRouteMetrics
      | Inr (distanceSum, timeSum) \<Rightarrow>
          Inr \<lparr>totalDistance = fl e (of_nat distanceSum / 1000),
               totalTime = fl e (of_nat timeSum / 60),
               fuelSavingsPercentage = None\<rparr>)"

text \<open>The decimal digits of a natural number.\<close>

definition digitChar :: "nat \<Rightarrow> char" where
  "digitChar d = char_of (48 + d)"

function natToString :: "nat \<Rightarrow> string" where
  "natToString n = (if n < 10 then [digitChar n] else natToString (n div 10) @ [digitChar (n mod 10)])"
  by pat_completeness auto
termination
  by (relation "measure id") auto

declare natToString.simps [simp del]

text \<open>
  \<^verbatim>\<open>toFixed(2)\<close>: the integer \<open>n\<close> with \<open>n / 100\<close> nearest to the magnitude, the larger one of
  two, printed with two decimals and the sign of the number. (The exponent notation of
  magnitudes from \<open>10\<^sup>2\<^sup>1\<close> on is not covered.)
\<close>

definition toFixed2 :: "rat \<Rightarrow> string" where
  "toFixed2 x =
     (let n = nat \<lfloor>\<bar>x\<bar> * 100 + 1 / 2\<rfloor>;
          digits = natToString (n div 100) @ ''.'' @ [digitChar (n mod 100 div 10), digitChar (n mod 10)]
      in if x < 0 then ''-'' @ digits else digits)"

subsection \<open>Double arithmetic of the fuel savings figure\<close>

text \<open>
  A double: \<open>NaN\<close>, an infinity (\<open>DInf True\<close> the positive one) or a finite number, kept as the
  rational it stands for. (The sign of a zero is not kept.)
\<close>

datatype jsdouble = DNaN | DInf bool | DFinite rat

text \<open>The power \<open>2\<^sup>k\<close> for an integer \<open>k\<close>, by squaring.\<close>

function pow2 :: "int \<Rightarrow> rat" where
  "pow2 k =
     (if k < 0 then 1 / pow2 (- k)
      else if k = 0 then 1
      else (let h = pow2 (k div 2) in if even k then h * h else 2 * h * h))"
  by pat_completeness auto
termination
  by (relation "measure (\<lambda>k. if k < 0 then nat (- k) + 1 else nat k)") auto

declare pow2.simps [simp del]

text \<open>The number of binary digits of a positive integer.\<close>

function bitLength :: "int \<Rightarrow> int" where
  "bitLength n = (if n \<le> 0 then 0 else bitLength (n div 2) + 1)"
  by pat_completeness auto
termination
  by (relation "measure nat") auto

declare bitLength.simps [simp del]

text \<open>The binary exponent of a positive rational \<open>x\<close>: the \<open>k\<close> with \<open>2\<^sup>k \<le> x < 2\<^sup>k\<^sup>+\<^sup>1\<close>.\<close>

definition floorLog2 :: "rat \<Rightarrow> int" where
  "floorLog2 x =
     (let (p, q) = quotient_of x; k = bitLength p - bitLength q
      in if pow2 k \<le> x then k else k - 1)"

text \<open>The nearest integer, the even one of two.\<close>

definition roundHalfEven :: "rat \<Rightarrow> int" where
  "roundHalfEven x =
     (let f = \<lfloor>x\<rfloor>; r = x - of_int f
      in if r < 1 / 2 then f else if 1 / 2 < r then f + 1 else if even f then f else f + 1)"

text \<open>
  The double of an exact result, as IEEE 754 binary64 rounds it: to the nearest multiple
  of \<open>2\<^sup>e\<^sup>-\<^sup>5\<^sup>2\<close> for the exponent \<open>e\<close> of the number (not below -1022), ties to the even
  multiple, and to an infinity when the rounded magnitude reaches \<open>2\<^sup>1\<^sup>0\<^sup>2\<^sup>4\<close>.
\<close>

definition overflowThreshold :: rat where
  "overflowThreshold = pow2 1024"

definition doubleOf :: "rat \<Rightarrow> jsdouble" where
  "doubleOf x =
     (if x = 0 then DFinite 0
      else (let e = max (floorLog2 \<bar>x\<bar>) (- 1022);
                ulp = pow2 (e - 52);
                y = of_int (roundHalfEven (\<bar>x\<bar> / ulp)) * ulp
            in if overflowThreshold \<le> y then DInf (0 < x)
               else DFinite (if 0 < x then y else - y)))"

text \<open>The operators \<^verbatim>\<open>+\<close>, \<^verbatim>\<open>-\<close>, \<^verbatim>\<open>*\<close> and \<^verbatim>\<open>/\<close> on doubles.\<close>

fun dAdd :: "jsdouble \<Rightarrow> jsdouble \<Rightarrow> jsdouble" where
  "dAdd (DFinite a) (DFinite b) = doubleOf (a + b)"
| "dAdd (DInf s) (DFinite b) = DInf s"
| "dAdd (DFinite a) (DInf s) = DInf s"
| "dAdd (DInf s) (DInf t) = (if s = t then DInf s else DNaN)"
| "dAdd _ _ = DNaN"

fun dSub :: "jsdouble \<Rightarrow> jsdouble \<Rightarrow> jsdouble" where
  "dSub (DFinite a) (DFinite b) = doubleOf (a - b)"
| "dSub (DInf s) (DFinite b) = DInf s"
| "dSub (DFinite a) (DInf s) = DInf (\<not> s)"
| "dSub (DInf s) (DInf t) = (if s = t then DNaN else DInf s)"
| "dSub _ _ = DNaN"

fun dMul :: "jsdouble \<Rightarrow> jsdouble \<Rightarrow> jsdouble" where
  "dMul (DFinite a) (DFinite b) = doubleOf (a * b)"
| "dMul (DInf s) (DFinite b) = (if b = 0 then DNaN else DInf (s = (0 < b)))"
| "dMul (DFinite a) (DInf s) = (if a = 0 then DNaN else DInf (s = (0 < a)))"
| "dMul (DInf s) (DInf t) = DInf (s = t)"
| "dMul _ _ = DNaN"

fun dDiv :: "jsdouble \<Rightarrow> jsdouble \<Rightarrow> jsdouble" where
  "dDiv (DFinite a) (DFinite b) =
     (if b = 0 then (if a = 0 then DNaN else DInf (0 < a)) else doubleOf (a / b))"
| "dDiv (DInf s) (DFinite b) = DInf (s = (0 \<le> b))"
| "dDiv (DFinite a) (DInf s) = DFinite 0"
| "dDiv _ _ = DNaN"

text \<open>\<^verbatim>\<open>toFixed(2)\<close> of a double; \<open>NaN\<close> and the infinities print by name.\<close>

definition toFixed :: "jsdouble \<Rightarrow> string" where
  "toFixed x =
     (case x of
        DNaN \<Rightarrow> ''NaN''
      | DInf s \<Rightarrow> (if s then ''Infinity'' else ''-Infinity'')
      | DFinite v \<Rightarrow> toFixed2 v)"

text \<open>
  The loop of \<^verbatim>\<open>calculateTSPRouteMetrics\<close> with \<open>totalDistance\<close> as the double the program
  holds: each \<^verbatim>\<open>distance.value\<close> is a double and each \<^verbatim>\<open>+=\<close> rounds. (Below \<open>2\<^sup>5\<^sup>3\<close> it is
  the whole-number sum of \<open>sumRoute\<close>.)
\<close>

fun sumMetres :: "rawMatrix \<Rightarrow> nat list \<Rightarrow> jsdouble \<Rightarrow> error + jsdouble" where
  "sumMetres distanceMatrix [] metresSoFar = Inr metresSoFar"
| "sumMetres distanceMatrix (i # rest) metresSoFar =
     (case legAt distanceMatrix i of
        Inl e \<Rightarrow> Inl e
      | Inr (metres, seconds) \<Rightarrow>
          sumMetres distanceMatrix rest (dAdd metresSoFar (doubleOf (of_nat metres))))"

definition doubleTotal :: "env \<Rightarrow> point option list \<Rightarrow> error + jsdouble" where
  "doubleTotal e route =
     (case getDistanceMatrix e route True of
        Inl err \<Rightarrow> Inl err
      | Inr distanceMatrix \<Rightarrow> sumMetres distanceMatrix [0..<length route - 1] (DFinite 0))"

text \<open>
  The fuel savings figure:
  \<^verbatim>\<open>(estimatedNonOptimizedDistance - totalDistance) / estimatedNonOptimizedDistance * 100\<close>
  with \<^verbatim>\<open>estimatedNonOptimizedDistance = totalDistance * 1.3\<close>, printed by \<^verbatim>\<open>toFixed(2)\<close>.
\<close>

definition fuelSavings :: "jsdouble \<Rightarrow> string" where
  "fuelSavings metres =
     (let estimatedNonOptimizedDistance = dMul metres (doubleOf (13 / 10));
          saved = dSub estimatedNonOptimizedDistance metres
      in toFixed (dMul (dDiv saved estimatedNonOptimizedDistance) (DFinite 100)))"

definition calculateTSPRouteMetrics :: "env \<Rightarrow> point option list \<Rightarrow> error + metrics" where
  "calculateTSPRouteMetrics e route =
     (case routeTotals e route of
        Inl err \<Rightarrow> Inl FailedTSPRouteMetrics
      | Inr (distanceSum, timeSum) \<Rightarrow>
          (case doubleTotal e route of
             Inl err \<Rightarrow> Inl FailedTSPRouteMetrics
           | Inr metres \<Rightarrow>
               Inr \<lparr>totalDistance = fl e (of_nat distanceSum / 1000),
                    totalTime = fl e (of_nat timeSum / 60),
                    fuelSavingsPercentage = Some (fuelSavings metres)\<rparr>))"

section \<open>algorithms/tsp.js and algorithms/dijkstra.js: routes over points\<close>

text \<open>\<^verbatim>\<open>cell.distance ? cell.distance.value : Infinity\<close>; the read on a \<^verbatim>\<open>null\<close> cell throws.\<close>

definition convertCell :: "cell option \<Rightarrow> error + enat" where
  "convertCell c =
     (case c of
        None \<Rightarrow> Inl TypeError
      | Some obj \<Rightarrow> (case distance obj of Some metres \<Rightarrow> Inr (enat metres) | None \<Rightarrow> Inr \<infinity>))"

text \<open>\<^verbatim>\<open>array.map\<close> with a callback that may throw.\<close>

fun mapE :: "('a \<Rightarrow> error + 'b) \<Rightarrow> 'a list \<Rightarrow> error + 'b list" where
  "mapE f [] = Inr []"
| "mapE f (x # xs) =
     (case f x of
        Inl e \<Rightarrow> Inl e
      | Inr y \<Rightarrow> (case mapE f xs of Inl e \<Rightarrow> Inl e | Inr ys \<Rightarrow> Inr (y # ys)))"

definition findOptimalRouteTSP :: "env \<Rightarrow> point option list \<Rightarrow> point option \<Rightarrow> error + point option list" where
  "findOptimalRouteTSP e points startPoint =
     (let allPoints = startPoint # points in
      case getDistanceMatrix e allPoints True of
        Inl err \<Rightarrow> Inl FailedOptimizeTSP
      | Inr rawDistanceMatrix \<Rightarrow>
          (case mapE (mapE convertCell) rawDistanceMatrix of
             Inl err \<Rightarrow> Inl FailedOptimizeTSP
           | Inr distanceMatrix \<Rightarrow>
               (case nearestNeighbor distanceMatrix 0 of
                  Inl err \<Rightarrow> Inl FailedOptimizeTSP
                | Inr initialTour \<Rightarrow>
                    (case twoOptImprovement initialTour distanceMatrix 100 of
                       Inl err \<Rightarrow> Inl FailedOptimizeTSP
                     | Inr optimizedTour \<Rightarrow> Inr (map (pointAt allPoints) optimizedTour)))))"

text \<open>
  \<^verbatim>\<open>reoptimizeRoute\<close> of dijkstra.js: \<^verbatim>\<open>slice(currentPointIndex)\<close>, the frontier heuristic from
  its first point over the others, and the part before it put in front.
\<close>

definition reoptimizeRoute :: "env \<Rightarrow> point option list \<Rightarrow> nat \<Rightarrow> error + point option list" where
  "reoptimizeRoute e currentRoute currentPointIndex =
     (let remainingPoints = drop currentPointIndex currentRoute in
      case findOptimalRoute e (drop 1 remainingPoints) (pointAt remainingPoints 0) of
        Inl err \<Rightarrow> Inl FailedReoptimizeRoute
      | Inr reoptimizedRemainingRoute \<Rightarrow>
          Inr (take currentPointIndex currentRoute @ reoptimizedRemainingRoute))"

section \<open>controllers/routeOptimizationController.js\<close>

text \<open>
  The handlers as functions from the request body to the response. The call counter
  (\<^verbatim>\<open>incrementApiCallCounter\<close>) and the messages written to the console are not part of the
  response and are left out.
\<close>

datatype 'a httpResult = Status200 'a | Status400 string | Status500 string

text \<open>
  The request body; \<open>None\<close> is an absent property, for the two arrays also a value that is
  not an array. \<open>currentPointIndex\<close> is a whole number.
\<close>

record requestBody =
  deliveryPoints :: "point option list option"
  startPoint :: "point option"
  algorithm :: "string option"
  currentRoute :: "point option list option"
  currentPosition :: "point option"
  currentPointIndex :: "int option"

text \<open>JavaScript truthiness of a coordinate and of a string.\<close>

definition truthyNumber :: "rat option \<Rightarrow> bool" where
  "truthyNumber x = (case x of None \<Rightarrow> False | Some v \<Rightarrow> v \<noteq> 0)"

definition truthyString :: "string option \<Rightarrow> bool" where
  "truthyString x = (case x of None \<Rightarrow> False | Some v \<Rightarrow> v \<noteq> [])"

text \<open>The negation of \<^verbatim>\<open>!p || !p.lat || !p.lng\<close>.\<close>

definition hasLatLng :: "point option \<Rightarrow> bool" where
  "hasLatLng p = (case p of None \<Rightarrow> False | Some q \<Rightarrow> truthyNumber (lat q) \<and> truthyNumber (lng q))"

text \<open>The callback of \<^verbatim>\<open>deliveryPoints.map\<close>: geocode a point that has an address and no coordinates.\<close>

definition processPoint :: "env \<Rightarrow> point option \<Rightarrow> error + point option" where
  "processPoint e p =
     (case p of
        None \<Rightarrow> Inl TypeError
      | Some q \<Rightarrow>
          if truthyString (address q) \<and> (\<not> truthyNumber (lat q) \<or> \<not> truthyNumber (lng q))
          then (case geocode e (the (address q)) of
                  Inl err \<Rightarrow> Inl err
                | Inr geocoded \<Rightarrow>
                    Inr (Some (q\<lparr>lat := lat geocoded, lng := lng geocoded,
                                  formattedAddress := formattedAddress geocoded\<rparr>)))
          else Inr p)"

text \<open>\<^verbatim>\<open>toLowerCase\<close> on the letters A to Z.\<close>

definition toLowerChar :: "char \<Rightarrow> char" where
  "toLowerChar c = (let n = (of_char c :: nat) in if 65 \<le> n \<and> n \<le> 90 then char_of (n + 32) else c)"

definition toLowerCase :: "string \<Rightarrow> string" where
  "toLowerCase s = map toLowerChar s"

definition algorithmName :: "requestBody \<Rightarrow> string" where
  "algorithmName body = toLowerCase (case algorithm body of None \<Rightarrow> ''dijkstra'' | Some a \<Rightarrow> a)"

record optimizeData =
  optimizedRoute :: "point option list"
  optimizedMetrics :: metrics
  optimizedAlgorithm :: string

definition optimizeRoute :: "env \<Rightarrow> requestBody \<Rightarrow> optimizeData httpResult" where
  "optimizeRoute e body =
     (case deliveryPoints body of
        None \<Rightarrow> Status400 ''Delivery points are required and must be a non-empty array''
      | Some points \<Rightarrow>
          if points = [] then Status400 ''Delivery points are required and must be a non-empty array''
          else if \<not> hasLatLng (startPoint body)
          then Status400 ''Start point with lat/lng coordinates is required''
          else (case mapE (processPoint e) points of
                  Inl err \<Rightarrow> Status500 ''Failed to optimize route''
                | Inr processedPoints \<Rightarrow>
                    if algorithmName body = ''tsp''
                    then (case findOptimalRouteTSP e processedPoints (startPoint body) of
                            Inl err \<Rightarrow> Status500 ''Failed to optimize route''
                          | Inr route \<Rightarrow>
                              (case calculateTSPRouteMetrics e route of
                                 Inl err \<Rightarrow> Status500 ''Failed to optimize route''
                               | Inr routeMetrics \<Rightarrow>
                                   Status200 \<lparr>optimizedRoute = route, optimizedMetrics = routeMetrics,
                                              optimizedAlgorithm = algorithmName body\<rparr>))
                    else (case findOptimalRoute e processedPoints (startPoint body) of
                            Inl err \<Rightarrow> Status500 ''Failed to optimize route''
                          | Inr route \<Rightarrow>
                              (case calculateRouteMetrics e route of
                                 Inl err \<Rightarrow> Status500 ''Failed to optimize route''
                               | Inr routeMetrics \<Rightarrow>
                                   Status200 \<lparr>optimizedRoute = route, optimizedMetrics = routeMetrics,
                                              optimizedAlgorithm = algorithmName body\<rparr>))))"

record reoptimizeData =
  reoptimizedRoute :: "point option list"
  reoptimizedMetrics :: metrics
  reoptimizedAlgorithm :: string

definition reoptimizeCurrentRoute :: "env \<Rightarrow> requestBody \<Rightarrow> reoptimizeData httpResult" where
  "reoptimizeCurrentRoute e body =
     (case currentRoute body of
        None \<Rightarrow> Status400 ''Current route is required and must be a non-empty array''
      | Some route \<Rightarrow>
          if route = [] then Status400 ''Current route is required and must be a non-empty array''
          else if \<not> hasLatLng (currentPosition body)
          then Status400 ''Current position with lat/lng coordinates is required''
          else (case currentPointIndex body of
                  None \<Rightarrow> Status400 ''Valid current point index is required''
                | Some index \<Rightarrow>
                    if index < 0 \<or> int (length route) \<le> index
                    then Status400 ''Valid current point index is required''
                    else if algorithmName body = ''tsp''
                    then (let remainingPoints = drop (nat index) route in
                          case findOptimalRouteTSP e (drop 1 remainingPoints) (currentPosition body) of
                            Inl err \<Rightarrow> Status500 ''Failed to reoptimize route''
                          | Inr reoptimized \<Rightarrow>
                              (let combined = take (nat index) route @ reoptimized in
                               case calculateTSPRouteMetrics e combined of
                                 Inl err \<Rightarrow> Status500 ''Failed to reoptimize route''
                               | Inr routeMetrics \<Rightarrow>
                                   Status200 \<lparr>reoptimizedRoute = combined,
                                              reoptimizedMetrics = routeMetrics,
                                              reoptimizedAlgorithm = algorithmName body\<rparr>))
                    else (case reoptimizeRoute e route (nat index) of
                            Inl err \<Rightarrow> Status500 ''Failed to reoptimize route''
                          | Inr combined \<Rightarrow>
                              (case calculateRouteMetrics e combined of
                                 Inl err \<Rightarrow> Status500 ''Failed to reoptimize route''
                               | Inr routeMetrics \<Rightarrow>
                                   Status200 \<lparr>reoptimizedRoute = combined,
                                              reoptimizedMetrics = routeMetrics,
                                              reoptimizedAlgorithm = algorithmName body\<rparr>))))"

text \<open>
  The comparison object of \<^verbatim>\<open>compareAlgorithms\<close>, without the wall-clock readings
  (\<open>computationTimeMs\<close> and their difference).
\<close>

record comparisonData =
  dijkstraRoute :: "point option list"
  dijkstraMetrics :: metrics
  tspRoute :: "point option list"
  tspMetrics :: metrics
  distanceDifference :: rat
  timeDifference :: rat
  recommended :: string

definition compareAlgorithms :: "env \<Rightarrow> requestBody \<Rightarrow> comparisonData httpResult" where
  "compareAlgorithms e body =
     (case deliveryPoints body of
        None \<Rightarrow> Status400 ''Delivery points are required and must be a non-empty array''
      | Some points \<Rightarrow>
          if points = [] then Status400 ''Delivery points are required and must be a non-empty array''
          else if \<not> hasLatLng (startPoint body)
          then Status400 ''Start point with lat/lng coordinates is required''
          else (case mapE (processPoint e) points of
                  Inl err \<Rightarrow> Status500 ''Failed to compare algorithms''
                | Inr processedPoints \<Rightarrow>
                    (case findOptimalRoute e processedPoints (startPoint body) of
                       Inl err \<Rightarrow> Status500 ''Failed to compare algorithms''
                     | Inr dRoute \<Rightarrow>
                   (case calculateRouteMetrics e dRoute of
                      Inl err \<Rightarrow> Status500 ''Failed to compare algorithms''
                    | Inr dMetrics \<Rightarrow>
                   (case findOptimalRouteTSP e processedPoints (startPoint body) of
                      Inl err \<Rightarrow> Status500 ''Failed to compare algorithms''
                    | Inr tRoute \<Rightarrow>
                   (case calculateTSPRouteMetrics e tRoute of
                      Inl err \<Rightarrow> Status500 ''Failed to compare algorithms''
                    | Inr tMetrics \<Rightarrow>
                        Status200
                          \<lparr>dijkstraRoute = dRoute, dijkstraMetrics = dMetrics,
                           tspRoute = tRoute, tspMetrics = tMetrics,
                           distanceDifference =
                             fl e \<bar>totalDistance dMetrics - totalDistance tMetrics\<bar>,
                           timeDifference = fl e \<bar>totalTime dMetrics - totalTime tMetrics\<bar>,
                           recommended =
                             (if totalDistance tMetrics \<le> totalDistance dMetrics
                              then ''tsp'' else ''dijkstra'')\<rparr>))))))"


section \<open>Properties of inputs and scenario environments\<close>

text \<open>No cell of the matrix is \<^verbatim>\<open>null\<close>; every cell carries a distance.\<close>

definition noNullCell :: "rawMatrix \<Rightarrow> bool" where
  "noNullCell distanceMatrix = (\<forall>row \<in> set distanceMatrix. None \<notin> set row)"

definition everyDistancePresent :: "rawMatrix \<Rightarrow> bool" where
  "everyDistancePresent distanceMatrix =
     (\<forall>row \<in> set distanceMatrix. \<forall>c \<in> set row. \<exists>obj metres. c = Some obj \<and> distance obj = Some metres)"


text \<open>The fuel savings figure of a metrics result, if there is one.\<close>

definition fuelFigureOf :: "error + metrics \<Rightarrow> string option" where
  "fuelFigureOf r = (case r of Inl err \<Rightarrow> None | Inr m \<Rightarrow> fuelSavingsPercentage m)"

text \<open>Every entry of the matrix is a cell object, as for a provider's matrix without \<^verbatim>\<open>null\<close>.\<close>

definition objectsOnly :: "jsval list list \<Rightarrow> bool" where
  "objectsOnly distanceMatrix = (\<forall>row \<in> set distanceMatrix. \<forall>v \<in> set row. \<exists>c. v = JObject c)"

text \<open>The route of a response, if it has one.\<close>

definition reoptimizedRouteOf :: "reoptimizeData httpResult \<Rightarrow> point option list option" where
  "reoptimizedRouteOf r = (case r of Status200 d \<Rightarrow> Some (reoptimizedRoute d) | _ \<Rightarrow> None)"

text \<open>
  A provider that answers every request with status \<^verbatim>\<open>OK\<close> and the element \<open>leg origin
  destination\<close> for each pair, and an environment around it: nothing cached, no geocoding,
  the kilometres and minutes kept as exact quotients.
\<close>

definition providerOf :: "(point \<Rightarrow> point \<Rightarrow> element) \<Rightarrow> point list \<Rightarrow> bool \<Rightarrow> error + response" where
  "providerOf leg points considerTraffic =
     Inr \<lparr>dataStatus = ''OK'',
          dataRows = map (\<lambda>origin. map (\<lambda>destination. leg origin destination) points) points\<rparr>"

definition envOf :: "(point \<Rightarrow> point \<Rightarrow> element) \<Rightarrow> env" where
  "envOf leg =
     \<lparr>cacheGet = (\<lambda>points considerTraffic. None), httpGet = providerOf leg,
      geocode = (\<lambda>a. Inl FailedGeocode), fl = (\<lambda>x. x)\<rparr>"

definition okElement :: "nat \<Rightarrow> element" where
  "okElement metres =
     \<lparr>distance = Some metres, duration = Some metres, duration_in_traffic = None, status = ''OK''\<rparr>"

text \<open>
  The points H, A, B, C of the scenario are \<open>stop 0\<close> to \<open>stop 3\<close>; the provider of the
  scenario reports the distances of \<open>scenarioMetres\<close> between them.
\<close>

definition stop :: "nat \<Rightarrow> point" where
  "stop k = \<lparr>lat = Some (of_nat k + 1), lng = Some 1, address = None, formattedAddress = None\<rparr>"

definition stopIndex :: "point \<Rightarrow> nat" where
  "stopIndex p = (case lat p of None \<Rightarrow> 0 | Some v \<Rightarrow> nat \<lfloor>v\<rfloor> - 1)"

definition scenarioEnv :: env where
  "scenarioEnv = envOf (\<lambda>origin destination.
     okElement (scenarioMetres ! stopIndex origin ! stopIndex destination))"



text \<open>A provider with element status \<^verbatim>\<open>ZERO_RESULTS\<close> between two different points.\<close>

definition zeroResultsElement :: element where
  "zeroResultsElement =
     \<lparr>distance = None, duration = None, duration_in_traffic = None, status = ''ZERO_RESULTS''\<rparr>"

definition zeroResultsEnv :: env where
  "zeroResultsEnv = envOf (\<lambda>origin destination.
     if origin = destination then okElement 0 else zeroResultsElement)"

text \<open>
  A reoptimization request on the route H, A, B, C at index 1, from a position that is not
  the stop A.
\<close>

definition driverPosition :: point where
  "driverPosition = \<lparr>lat = Some 1, lng = Some 2, address = None, formattedAddress = None\<rparr>"

definition reoptimizeBody :: "string \<Rightarrow> requestBody" where
  "reoptimizeBody name =
     \<lparr>deliveryPoints = None, startPoint = None, algorithm = Some name,
      currentRoute = Some [Some (stop 0), Some (stop 1), Some (stop 2), Some (stop 3)],
      currentPosition = Some driverPosition, currentPointIndex = Some 1\<rparr>"

definition optimizeBody :: "point option list \<Rightarrow> string \<Rightarrow> requestBody" where
  "optimizeBody points name =
     \<lparr>deliveryPoints = Some points, startPoint = Some (stop 0), algorithm = Some name,
      currentRoute = None, currentPosition = None, currentPointIndex = None\<rparr>"


text \<open>The answers of the controller in the scenario.\<close>

definition scenarioComparison :: comparisonData where
  "scenarioComparison =
     \<lparr>dijkstraRoute = [Some (stop 0)],
      dijkstraMetrics = \<lparr>totalDistance = 0, totalTime = 0, fuelSavingsPercentage = None\<rparr>,
      tspRoute = [Some (stop 0), Some (stop 1), Some (stop 2), Some (stop 3)],
      tspMetrics = \<lparr>totalDistance = 3 / 1000, totalTime = 3 / 60,
                    fuelSavingsPercentage = Some ''23.08''\<rparr>,
      distanceDifference = 3 / 1000, timeDifference = 3 / 60,
      recommended = ''dijkstra''\<rparr>"

definition scenarioReoptimized :: reoptimizeData where
  "scenarioReoptimized =
     \<lparr>reoptimizedRoute = [Some (stop 0), Some (stop 1)],
      reoptimizedMetrics = \<lparr>totalDistance = 1 / 1000, totalTime = 1 / 60,
                            fuelSavingsPercentage = None\<rparr>,
      reoptimizedAlgorithm = ''dijkstra''\<rparr>"

section \<open>Nearest neighbour: the tour is a duplicate-free list of indices\<close>

lemma matrixAt_square:
  "squareMatrix m \<Longrightarrow> a < length m \<Longrightarrow> b < length m \<Longrightarrow> matrixAt m a b = Inr (Num (m ! a ! b))"
  by (simp add: matrixAt_def squareMatrix_def)

lemma matrixAt_row: "a < length m \<Longrightarrow> \<exists>d. matrixAt m a b = Inr d"
  by (simp add: matrixAt_def)

lemma scanNearest_total:
  "c < length m \<Longrightarrow> \<exists>r. scanNearest m v c is st = Inr r"
proof (induction "is" arbitrary: st)
  case Nil
  then show ?case by simp
next
  case (Cons i rest)
  obtain np md where st: "st = (np, md)" by (cases st)
  from Cons.prems obtain d where d: "matrixAt m c i = Inr d"
    using matrixAt_row by blast
  show ?case using Cons.IH [OF Cons.prems] by (simp add: st d)
qed

lemma scanNearest_Some:
  "scanNearest m v c is (np, md) = Inr (Some p, d) \<Longrightarrow> np = Some p \<or> (p \<in> set is \<and> \<not> v ! p)"
proof (induction "is" arbitrary: np md)
  case Nil
  then show ?case by simp
next
  case (Cons i rest)
  show ?case
  proof (cases "v ! i")
    case True
    with Cons.prems have "scanNearest m v c rest (np, md) = Inr (Some p, d)" by simp
    from Cons.IH [OF this] show ?thesis by auto
  next
    case False
    show ?thesis
    proof (cases "matrixAt m c i")
      case (Inl e)
      with Cons.prems False show ?thesis by simp
    next
      case (Inr x)
      show ?thesis
      proof (cases "jsLess x md")
        case True
        with Cons.prems False Inr have "scanNearest m v c rest (Some i, x) = Inr (Some p, d)" by simp
        from Cons.IH [OF this] False show ?thesis by auto
      next
        case less: False
        with Cons.prems False Inr have "scanNearest m v c rest (np, md) = Inr (Some p, d)" by simp
        from Cons.IH [OF this] show ?thesis by auto
      qed
    qed
  qed
qed

lemma scanNearest_None:
  "scanNearest m v c is (np, md) = Inr (None, d) \<Longrightarrow>
     np = None \<and> d = md \<and> (\<forall>i \<in> set is. \<not> v ! i \<longrightarrow> (\<exists>x. matrixAt m c i = Inr x \<and> \<not> jsLess x md))"
proof (induction "is" arbitrary: np md)
  case Nil
  then show ?case by simp
next
  case (Cons i rest)
  show ?case
  proof (cases "v ! i")
    case True
    with Cons show ?thesis by simp
  next
    case False
    show ?thesis
    proof (cases "matrixAt m c i")
      case (Inl e)
      with Cons.prems False show ?thesis by simp
    next
      case (Inr x)
      show ?thesis
      proof (cases "jsLess x md")
        case True
        with Cons.prems False Inr have "scanNearest m v c rest (Some i, x) = Inr (None, d)" by simp
        from Cons.IH [OF this] show ?thesis by simp
      next
        case less: False
        with Cons.prems False Inr have "scanNearest m v c rest (np, md) = Inr (None, d)" by simp
        from Cons.IH [OF this] False Inr less show ?thesis by simp
      qed
    qed
  qed
qed

lemma nnInv_step:
  assumes inv: "nnInv m visited tour"
    and scan: "scanNearest m visited (last tour) [0..<length m] (None, Num \<infinity>) = Inr (Some p, d)"
  shows "nnInv m (visited[p := True]) (tour @ [p])"
proof -
  from scanNearest_Some [OF scan] have p: "p < length m" "\<not> visited ! p" by simp_all
  from inv have len: "length visited = length m" and ne: "tour \<noteq> []" and dist: "distinct tour"
    and vis: "\<And>q. q \<in> set tour \<Longrightarrow> q < length m \<and> visited ! q"
    and cov: "\<And>i. i < length m \<Longrightarrow> visited ! i \<Longrightarrow> i \<in> set tour"
    unfolding nnInv_def by blast+
  from vis p have notin: "p \<notin> set tour" by blast
  have 1: "distinct (tour @ [p])" using dist notin by simp
  have 2: "\<forall>q \<in> set (tour @ [p]). q < length m \<and> (visited[p := True]) ! q"
  proof
    fix q assume "q \<in> set (tour @ [p])"
    then consider "q \<in> set tour" | "q = p" by auto
    then show "q < length m \<and> (visited[p := True]) ! q"
    proof cases
      case 1
      with vis [of q] len p show ?thesis by (cases "q = p") simp_all
    next
      case 2
      with p len show ?thesis by simp
    qed
  qed
  have 3: "\<forall>i < length m. (visited[p := True]) ! i \<longrightarrow> i \<in> set (tour @ [p])"
  proof (intro allI impI)
    fix i assume i: "i < length m" and v: "(visited[p := True]) ! i"
    show "i \<in> set (tour @ [p])"
    proof (cases "i = p")
      case True
      then show ?thesis by simp
    next
      case False
      with v have "visited ! i" by simp
      from cov [OF i this] show ?thesis by simp
    qed
  qed
  show ?thesis unfolding nnInv_def using len 1 2 3 by simp
qed

lemma nnLoop_inv:
  "nnInv m visited tour \<Longrightarrow>
     \<exists>out. nnLoop m visited tour = Inr out \<and> hd out = hd tour \<and> distinct out \<and>
           (\<forall>p \<in> set out. p < length m) \<and> out \<noteq> []"
proof (induction m visited tour rule: nnLoop.induct)
  case (1 m visited tour)
  from "1.prems" have ne: "tour \<noteq> []" and dist: "distinct tour"
    and vis: "\<forall>q \<in> set tour. q < length m \<and> visited ! q"
    unfolding nnInv_def by blast+
  show ?case
  proof (cases "length tour < length m")
    case False
    then have "nnLoop m visited tour = Inr tour" by (subst nnLoop.simps) simp
    with ne dist vis show ?thesis by simp
  next
    case True
    from ne vis have "last tour < length m" by simp
    from scanNearest_total [OF this] obtain r where
      "scanNearest m visited (last tour) [0..<length m] (None, Num \<infinity>) = Inr r" by blast
    then obtain np d where scan:
      "scanNearest m visited (last tour) [0..<length m] (None, Num \<infinity>) = Inr (np, d)"
      by (cases r) simp
    show ?thesis
    proof (cases np)
      case None
      with True scan have "nnLoop m visited tour = Inr tour" by (subst nnLoop.simps) simp
      with ne dist vis show ?thesis by simp
    next
      case (Some p)
      with scan have scan': 
        "scanNearest m visited (last tour) [0..<length m] (None, Num \<infinity>) = Inr (Some p, d)"
        by simp
      have inv': "nnInv m (visited[p := True]) (tour @ [p])"
        by (rule nnInv_step [OF "1.prems" scan'])
      have step: "nnLoop m visited tour = nnLoop m (visited[p := True]) (tour @ [p])"
        using True scan' by (subst nnLoop.simps) simp
      from "1.IH" [OF True scan' refl refl inv'] ne
      show ?thesis unfolding step by simp
    qed
  qed
qed

lemma nnInv_init:
  "startIndex < length m \<Longrightarrow> nnInv m ((replicate (length m) False)[startIndex := True]) [startIndex]"
  by (auto simp: nnInv_def nth_list_update)


lemma finiteMatrix_less:
  assumes "squareMatrix m" "finiteMatrix m" "a < length m" "b < length m"
  shows "m ! a ! b < \<infinity>"
proof -
  from assms(3) have row: "m ! a \<in> set m" by simp
  with assms(1) have "length (m ! a) = length m" by (simp add: squareMatrix_def)
  with assms(4) have "m ! a ! b \<in> set (m ! a)" by simp
  with row assms(2) have "m ! a ! b \<noteq> \<infinity>" unfolding finiteMatrix_def by blast
  then show ?thesis by simp
qed

lemma nnLoop_complete:
  "nnInv m visited tour \<Longrightarrow> squareMatrix m \<Longrightarrow> finiteMatrix m \<Longrightarrow>
     nnLoop m visited tour = Inr out \<Longrightarrow> length out = length m"
proof (induction m visited tour rule: nnLoop.induct)
  case (1 m visited tour)
  from "1.prems"(1) have ne: "tour \<noteq> []" and dist: "distinct tour"
    and vis: "\<forall>q \<in> set tour. q < length m \<and> visited ! q"
    and cov: "\<forall>i < length m. visited ! i \<longrightarrow> i \<in> set tour"
    unfolding nnInv_def by blast+
  from vis have sub: "set tour \<subseteq> {0..<length m}" by auto
  have le: "length tour \<le> length m"
  proof -
    from dist have "length tour = card (set tour)" by (simp add: distinct_card)
    also from sub have "\<dots> \<le> card {0..<length m}" by (intro card_mono) simp_all
    finally show ?thesis by simp
  qed
  show ?case
  proof (cases "length tour < length m")
    case False
    then have "nnLoop m visited tour = Inr tour" by (subst nnLoop.simps) simp
    with "1.prems"(4) le False show ?thesis by simp
  next
    case True
    from ne vis have cur: "last tour < length m" by simp
    from scanNearest_total [OF this] obtain r where
      "scanNearest m visited (last tour) [0..<length m] (None, Num \<infinity>) = Inr r" by blast
    then obtain np d where scan:
      "scanNearest m visited (last tour) [0..<length m] (None, Num \<infinity>) = Inr (np, d)"
      by (cases r) simp
    show ?thesis
    proof (cases np)
      case None
      have "\<forall>i < length m. visited ! i"
      proof (intro allI impI, rule ccontr)
        fix i assume i: "i < length m" and nv: "\<not> visited ! i"
        from scanNearest_None [OF scan [unfolded None]] i nv
        obtain x where x: "matrixAt m (last tour) i = Inr x" "\<not> jsLess x (Num \<infinity>)" by auto
        from matrixAt_square [OF "1.prems"(2) cur i] x(1) have "x = Num (m ! last tour ! i)" by simp
        with x(2) finiteMatrix_less [OF "1.prems"(2,3) cur i] show False by simp
      qed
      with cov have "{0..<length m} \<subseteq> set tour" by auto
      then have "card {0..<length m} \<le> card (set tour)" by (intro card_mono) simp_all
      with dist have "length m \<le> length tour" by (simp add: distinct_card)
      with True show ?thesis by simp
    next
      case (Some p)
      with scan have scan': 
        "scanNearest m visited (last tour) [0..<length m] (None, Num \<infinity>) = Inr (Some p, d)"
        by simp
      have inv': "nnInv m (visited[p := True]) (tour @ [p])"
        by (rule nnInv_step [OF "1.prems"(1) scan'])
      have step: "nnLoop m visited tour = nnLoop m (visited[p := True]) (tour @ [p])"
        using True scan' by (subst nnLoop.simps) simp
      from "1.prems"(4) have "nnLoop m (visited[p := True]) (tour @ [p]) = Inr out"
        unfolding step .
      from "1.IH" [OF True scan' refl refl inv' "1.prems"(2,3) this]
      show ?thesis .
    qed
  qed
qed

lemma reverseSegment_length: "length (reverseSegment t l r) = length t"
proof (induction t l r rule: reverseSegment.induct)
  case (1 t l r)
  show ?case
  proof (cases "l < r")
    case True
    with 1 show ?thesis by (subst reverseSegment.simps) simp
  next
    case False
    then show ?thesis by (subst reverseSegment.simps) simp
  qed
qed

lemma reverseSegment_mset: "r < length t \<Longrightarrow> mset (reverseSegment t l r) = mset t"
proof (induction t l r rule: reverseSegment.induct)
  case (1 t l r)
  show ?case
  proof (cases "l < r")
    case True
    let ?t = "t[l := t ! r, r := t ! l]"
    from True "1.prems" have "r - 1 < length ?t" by simp
    from "1.IH" [OF True this] have "mset (reverseSegment ?t (l + 1) (r - 1)) = mset ?t" .
    moreover from True "1.prems" have "mset ?t = mset t" by (simp add: mset_swap)
    moreover from True have "reverseSegment t l r = reverseSegment ?t (l + 1) (r - 1)"
      by (subst reverseSegment.simps) simp
    ultimately show ?thesis by simp
  next
    case False
    then show ?thesis by (subst reverseSegment.simps) simp
  qed
qed

lemma reverseSegment_below: "k < l \<Longrightarrow> reverseSegment t l r ! k = t ! k"
proof (induction t l r rule: reverseSegment.induct)
  case (1 t l r)
  show ?case
  proof (cases "l < r")
    case True
    let ?t = "t[l := t ! r, r := t ! l]"
    from "1.prems" have "k < l + 1" by simp
    from "1.IH" [OF True this] have "reverseSegment ?t (l + 1) (r - 1) ! k = ?t ! k" .
    moreover from True "1.prems" have "?t ! k = t ! k" by simp
    moreover from True have "reverseSegment t l r = reverseSegment ?t (l + 1) (r - 1)"
      by (subst reverseSegment.simps) simp
    ultimately show ?thesis by simp
  next
    case False
    then show ?thesis by (subst reverseSegment.simps) simp
  qed
qed

lemma sumLegs_valid:
  "squareMatrix m \<Longrightarrow> validTour t m \<Longrightarrow> \<exists>d. sumLegs m t (Num a) = Inr (Num d)"
proof (induction m t "Num a" arbitrary: a rule: sumLegs.induct)
  case (1 m x y rest)
  from "1.prems" have x: "x < length m" and y: "y < length m" and v: "validTour (y # rest) m"
    by (simp_all add: validTour_def)
  from matrixAt_square [OF "1.prems"(1) x y] have at: "matrixAt m x y = Inr (Num (m ! x ! y))" .
  from "1.hyps" [OF at _ "1.prems"(1) v, of "a + m ! x ! y"] at show ?case by simp
qed simp_all

lemma calculateTourDistance_valid:
  "squareMatrix m \<Longrightarrow> validTour t m \<Longrightarrow> \<exists>d. calculateTourDistance t m = Inr (Num d)"
  unfolding calculateTourDistance_def by (rule sumLegs_valid)

lemma swapPairs_bound: "(i, j) \<in> set (swapPairs n) \<Longrightarrow> i + 2 \<le> j \<and> j < n"
  by (auto simp: swapPairs_def)

lemma swapPairs_mem: "i + 2 \<le> j \<Longrightarrow> j < n \<Longrightarrow> (i, j) \<in> set (swapPairs n)"
  by (auto simp: swapPairs_def intro!: bexI [of _ i])


lemma validTour_mset: "mset t' = mset t \<Longrightarrow> validTour t m \<Longrightarrow> validTour t' m"
  unfolding validTour_def by (metis set_mset_mset)

lemma firstImprovement_valid:
  assumes sq: "squareMatrix m" and v: "validTour best m"
    and pairs: "\<forall>(i, j) \<in> set ps. j < length best"
  shows "firstImprovement m best (Num bd) ps = Inr None \<or>
         (\<exists>t' d'. firstImprovement m best (Num bd) ps = Inr (Some (t', Num d')) \<and> d' < bd \<and>
            calculateTourDistance t' m = Inr (Num d') \<and> mset t' = mset best \<and>
            length t' = length best \<and> t' ! 0 = best ! 0)"
  using pairs
proof (induction ps)
  case Nil
  then show ?case by simp
next
  case (Cons ij rest)
  obtain i j where ij: "ij = (i, j)" by (cases ij)
  let ?t = "reverseSegment best (i + 1) j"
  from Cons.prems ij have j: "j < length best" by simp
  have ms: "mset ?t = mset best" by (rule reverseSegment_mset [OF j])
  from validTour_mset [OF ms v] have "validTour ?t m" .
  from calculateTourDistance_valid [OF sq this] obtain d where
    d: "calculateTourDistance ?t m = Inr (Num d)" by blast
  show ?case
  proof (cases "d < bd")
    case True
    have "?t ! 0 = best ! 0" by (rule reverseSegment_below) simp
    with True d ms ij show ?thesis by (simp add: reverseSegment_length)
  next
    case False
    from Cons.prems have "\<forall>(i, j) \<in> set rest. j < length best" by simp
    from Cons.IH [OF this] False d ij show ?thesis by simp
  qed
qed

lemma firstImprovement_None:
  assumes "\<forall>(i, j) \<in> set ps. \<exists>d. calculateTourDistance (reverseSegment best (i + 1) j) m = Inr d
             \<and> \<not> jsLess d bestDistance"
  shows "firstImprovement m best bestDistance ps = Inr None"
  using assms
proof (induction ps)
  case Nil
  then show ?case by simp
next
  case (Cons ij rest)
  obtain i j where ij: "ij = (i, j)" by (cases ij)
  from Cons.prems ij obtain d where
    d: "calculateTourDistance (reverseSegment best (i + 1) j) m = Inr d" "\<not> jsLess d bestDistance"
    by auto
  from Cons.prems have "\<forall>(i, j) \<in> set rest. \<exists>d.
      calculateTourDistance (reverseSegment best (i + 1) j) m = Inr d \<and> \<not> jsLess d bestDistance"
    by simp
  from Cons.IH [OF this] d ij show ?case by simp
qed

lemma twoOptLoop_valid:
  "squareMatrix m \<Longrightarrow> validTour best m \<Longrightarrow> calculateTourDistance best m = Inr (Num bd) \<Longrightarrow>
     \<exists>out d. twoOptLoop m best (Num bd) it maxIt = Inr out \<and>
       calculateTourDistance out m = Inr (Num d) \<and> d \<le> bd \<and> mset out = mset best \<and>
       out ! 0 = best ! 0"
proof (induction m best "Num bd" it maxIt arbitrary: bd rule: twoOptLoop.induct)
  case (1 m best it maxIt)
  show ?case
  proof (cases "it < maxIt")
    case False
    then have "twoOptLoop m best (Num bd) it maxIt = Inr best" by (subst twoOptLoop.simps) simp
    with "1.prems" show ?thesis by simp
  next
    case True
    have pairs: "\<forall>(i, j) \<in> set (swapPairs (length best)). j < length best"
      using swapPairs_bound by auto
    from firstImprovement_valid [OF "1.prems"(1,2) pairs, of bd]
    consider "firstImprovement m best (Num bd) (swapPairs (length best)) = Inr None"
      | t' d' where "firstImprovement m best (Num bd) (swapPairs (length best)) = Inr (Some (t', Num d'))"
          "d' < bd" "calculateTourDistance t' m = Inr (Num d')" "mset t' = mset best"
          "t' ! 0 = best ! 0"
      by blast
    then show ?thesis
    proof cases
      case 1
      with True have "twoOptLoop m best (Num bd) it maxIt = Inr best"
        by (subst twoOptLoop.simps) simp
      with "1.prems" show ?thesis by simp
    next
      case 2
      from True 2(1) have step:
        "twoOptLoop m best (Num bd) it maxIt = twoOptLoop m t' (Num d') (it + 1) maxIt"
        by (subst twoOptLoop.simps) simp
      from validTour_mset [OF 2(4) "1.prems"(2)] have v': "validTour t' m" .
      from "1.hyps" [OF True 2(1) refl refl "1.prems"(1) v' 2(3)]
      obtain out d where "twoOptLoop m t' (Num d') (it + 1) maxIt = Inr out"
        "calculateTourDistance out m = Inr (Num d)" "d \<le> d'" "mset out = mset t'"
        "out ! 0 = t' ! 0" by blast
      with 2 step show ?thesis by auto
    qed
  qed
qed


lemma squareMatrix_scenario: "squareMatrix scenarioMatrix"
  by (simp add: squareMatrix_def scenarioMatrix_def scenarioMetres_def)

lemma squareMatrix_unreachable: "squareMatrix unreachableMatrix"
  by (simp add: squareMatrix_def unreachableMatrix_def)

lemma nearestNeighbor_unreachable: "nearestNeighbor unreachableMatrix 0 = Inr [0]"
  by code_simp

lemma nearestNeighbor_scenario: "nearestNeighbor scenarioMatrix 0 = Inr [0, 1, 2, 3]"
  by code_simp

lemma twoOptImprovement_scenario: "twoOptImprovement [0, 1, 2, 3] scenarioMatrix 100 = Inr [0, 1, 2, 3]"
  by code_simp

text \<open>
  Claim C10: on a square matrix and a start index in range, \<open>nearestNeighbor\<close> returns a tour
  that begins with the start index, has no index twice and holds indices of the matrix
  only; this includes the tours cut short because no unvisited index has a finite edge.
\<close>

theorem nearestNeighbor_tour_wellformed:
  assumes "squareMatrix distanceMatrix" and "startIndex < length distanceMatrix"
  shows "\<exists>tour. nearestNeighbor distanceMatrix startIndex = Inr tour \<and> tour \<noteq> [] \<and>
           hd tour = startIndex \<and> distinct tour \<and> (\<forall>p \<in> set tour. p < length distanceMatrix)"
  using nnLoop_inv [OF nnInv_init [OF assms(2)]] by (auto simp: nearestNeighbor_def)

theorem nearestNeighbor_tour_wellformed_witness:
  "squareMatrix unreachableMatrix \<and> 0 < length unreachableMatrix \<and>
   nearestNeighbor unreachableMatrix 0 = Inr [0] \<and>
   (\<exists>tour. nearestNeighbor unreachableMatrix 0 = Inr tour \<and> tour \<noteq> [] \<and> hd tour = 0 \<and>
      distinct tour \<and> (\<forall>p \<in> set tour. p < length unreachableMatrix))"
proof -
  have len: "0 < length unreachableMatrix" by (simp add: unreachableMatrix_def)
  from nearestNeighbor_tour_wellformed [OF squareMatrix_unreachable len]
  show ?thesis using squareMatrix_unreachable len nearestNeighbor_unreachable by simp
qed

lemma swapPairs_scenario: "swapPairs (length [0, 1, 2, 3 :: nat]) = [(0, 2), (0, 3), (1, 3)]"
  by code_simp

lemma no_improvingReversal_scenario:
  "improvingReversal [0, 1, 2, 3] scenarioMatrix 0 2 = False"
  "improvingReversal [0, 1, 2, 3] scenarioMatrix 0 3 = False"
  "improvingReversal [0, 1, 2, 3] scenarioMatrix 1 3 = False"
  by code_simp+

text \<open>
  Claim C6: on the scenario matrix, \<open>nearestNeighbor\<close> from H (index 0) returns the tour
  H, A, B, C, and \<open>twoOptImprovement\<close> (with its default of 100 passes) returns that tour
  unchanged: none of the three reversals that the scan tries on it is shorter.
\<close>

theorem scenario_nearestNeighbor_then_twoOpt:
  "nearestNeighbor scenarioMatrix 0 = Inr [0, 1, 2, 3] \<and>
   twoOptImprovement [0, 1, 2, 3] scenarioMatrix 100 = Inr [0, 1, 2, 3] \<and>
   swapPairs (length [0, 1, 2, 3 :: nat]) = [(0, 2), (0, 3), (1, 3)] \<and>
   improvingReversal [0, 1, 2, 3] scenarioMatrix 0 2 = False \<and>
   improvingReversal [0, 1, 2, 3] scenarioMatrix 0 3 = False \<and>
   improvingReversal [0, 1, 2, 3] scenarioMatrix 1 3 = False"
  using nearestNeighbor_scenario twoOptImprovement_scenario swapPairs_scenario
    no_improvingReversal_scenario
  by simp

section \<open>2-opt never lengthens a tour\<close>

lemma improvingReversal_valid:
  assumes "calculateTourDistance (reverseSegment tour (i + 1) j) m = Inr (Num d)"
    and "calculateTourDistance tour m = Inr (Num dIn)"
  shows "improvingReversal tour m i j \<longleftrightarrow> d < dIn"
  using assms by (simp add: improvingReversal_def)

text \<open>
  Claim C3: for a tour of indices of a square matrix, the tour that \<open>twoOptImprovement\<close>
  returns has a total distance (consecutive legs, no leg back to the start) no greater
  than that of its input; when no reversal that the scan considers makes the tour
  strictly shorter, the output is the input.
\<close>

theorem twoOptImprovement_never_longer:
  assumes sq: "squareMatrix distanceMatrix" and valid: "validTour tour distanceMatrix"
  shows "\<exists>out dIn dOut.
           twoOptImprovement tour distanceMatrix maxIterations = Inr out \<and>
           calculateTourDistance tour distanceMatrix = Inr (Num dIn) \<and>
           calculateTourDistance out distanceMatrix = Inr (Num dOut) \<and> dOut \<le> dIn \<and>
           ((\<forall>i j. i + 2 \<le> j \<and> j < length tour \<longrightarrow> \<not> improvingReversal tour distanceMatrix i j)
              \<longrightarrow> out = tour)"
proof -
  from calculateTourDistance_valid [OF sq valid] obtain dIn where
    dIn: "calculateTourDistance tour distanceMatrix = Inr (Num dIn)" by blast
  from twoOptLoop_valid [OF sq valid dIn, of 0 maxIterations] obtain out dOut where
    loop: "twoOptLoop distanceMatrix tour (Num dIn) 0 maxIterations = Inr out"
    and dOut: "calculateTourDistance out distanceMatrix = Inr (Num dOut)" "dOut \<le> dIn"
    by blast
  from dIn loop have res: "twoOptImprovement tour distanceMatrix maxIterations = Inr out"
    by (simp add: twoOptImprovement_def)
  have same: "out = tour"
    if none: "\<forall>i j. i + 2 \<le> j \<and> j < length tour \<longrightarrow> \<not> improvingReversal tour distanceMatrix i j"
  proof -
    have "\<forall>(i, j) \<in> set (swapPairs (length tour)). \<exists>d.
            calculateTourDistance (reverseSegment tour (i + 1) j) distanceMatrix = Inr d \<and>
            \<not> jsLess d (Num dIn)"
    proof (clarify)
      fix i j assume mem: "(i, j) \<in> set (swapPairs (length tour))"
      from swapPairs_bound [OF mem] have b: "i + 2 \<le> j" "j < length tour" by simp_all
      from validTour_mset [OF reverseSegment_mset [OF b(2)] valid]
      have "validTour (reverseSegment tour (i + 1) j) distanceMatrix" .
      from calculateTourDistance_valid [OF sq this] obtain d where
        d: "calculateTourDistance (reverseSegment tour (i + 1) j) distanceMatrix = Inr (Num d)"
        by blast
      from none b have "\<not> improvingReversal tour distanceMatrix i j" by blast
      with improvingReversal_valid [OF d dIn] have "\<not> d < dIn" by simp
      with d show "\<exists>d. calculateTourDistance (reverseSegment tour (i + 1) j) distanceMatrix = Inr d \<and>
            \<not> jsLess d (Num dIn)" by simp
    qed
    from firstImprovement_None [OF this]
    have none': "firstImprovement distanceMatrix tour (Num dIn) (swapPairs (length tour)) = Inr None" .
    have "twoOptLoop distanceMatrix tour (Num dIn) 0 maxIterations = Inr tour"
      using none' by (subst twoOptLoop.simps) simp
    with loop show ?thesis by simp
  qed
  from res dIn dOut same show ?thesis by blast
qed

lemma validTour_swapped: "validTour [0, 2, 1, 3] scenarioMatrix"
  by (simp add: validTour_def scenarioMatrix_def scenarioMetres_def)

lemma twoOptImprovement_swapped: "twoOptImprovement [0, 2, 1, 3] scenarioMatrix 100 = Inr [0, 1, 2, 3]"
  by code_simp

theorem twoOptImprovement_never_longer_witness:
  "squareMatrix scenarioMatrix \<and> validTour [0, 2, 1, 3] scenarioMatrix \<and>
   twoOptImprovement [0, 2, 1, 3] scenarioMatrix 100 = Inr [0, 1, 2, 3] \<and>
   (\<exists>out dIn dOut.
      twoOptImprovement [0, 2, 1, 3] scenarioMatrix 100 = Inr out \<and>
      calculateTourDistance [0, 2, 1, 3] scenarioMatrix = Inr (Num dIn) \<and>
      calculateTourDistance out scenarioMatrix = Inr (Num dOut) \<and> dOut \<le> dIn \<and>
      ((\<forall>i j. i + 2 \<le> j \<and> j < length [0, 2, 1, 3 :: nat] \<longrightarrow>
           \<not> improvingReversal [0, 2, 1, 3] scenarioMatrix i j) \<longrightarrow> out = [0, 2, 1, 3]))"
  using twoOptImprovement_never_longer [OF squareMatrix_scenario validTour_swapped, of 100]
    squareMatrix_scenario validTour_swapped twoOptImprovement_swapped
  by simp


section \<open>The provider's answer and the matrix built from it\<close>

lemma mapE_fails: "x \<in> set xs \<Longrightarrow> f x = Inl err \<Longrightarrow> \<exists>err'. mapE f xs = Inl err'"
proof (induction xs)
  case Nil
  then show ?case by simp
next
  case (Cons y ys)
  show ?case
  proof (cases "f y")
    case (Inl a)
    then show ?thesis by simp
  next
    case (Inr b)
    with Cons.prems have "x \<in> set ys" by auto
    from Cons.IH [OF this Cons.prems(2)] Inr show ?thesis by auto
  qed
qed

lemma mapE_succeeds:
  "\<forall>x \<in> set xs. \<exists>y. f x = Inr y \<Longrightarrow>
     \<exists>ys. mapE f xs = Inr ys \<and> length ys = length xs \<and> (\<forall>i < length xs. f (xs ! i) = Inr (ys ! i))"
proof (induction xs)
  case Nil
  then show ?case by simp
next
  case (Cons x xs)
  from Cons.prems obtain y where y: "f x = Inr y" by auto
  from Cons.prems have "\<forall>x \<in> set xs. \<exists>y. f x = Inr y" by simp
  from Cons.IH [OF this] obtain ys where
    ys: "mapE f xs = Inr ys" "length ys = length xs" "\<forall>i < length xs. f (xs ! i) = Inr (ys ! i)"
    by blast
  have "\<forall>i < length (x # xs). f ((x # xs) ! i) = Inr ((y # ys) ! i)"
  proof (intro allI impI)
    fix i assume "i < length (x # xs)"
    with y ys(3) show "f ((x # xs) ! i) = Inr ((y # ys) ! i)" by (cases i) simp_all
  qed
  with y ys(1,2) show ?case by simp
qed

lemma convert_null_fails:
  assumes "\<not> noNullCell raw"
  shows "\<exists>err. mapE (mapE convertCell) raw = Inl err"
proof -
  from assms obtain row where row: "row \<in> set raw" "None \<in> set row"
    by (auto simp: noNullCell_def)
  have "convertCell None = Inl TypeError" by (simp add: convertCell_def)
  from mapE_fails [of None row convertCell, OF row(2) this]
  obtain err where "mapE convertCell row = Inl err" by blast
  from mapE_fails [of row raw "mapE convertCell", OF row(1) this] show ?thesis .
qed

lemma findOptimalRouteTSP_null_cell:
  assumes "getDistanceMatrix e (start # points) True = Inr raw" and "\<not> noNullCell raw"
  shows "findOptimalRouteTSP e points start = Inl FailedOptimizeTSP"
proof -
  from convert_null_fails [OF assms(2)] obtain err where "mapE (mapE convertCell) raw = Inl err"
    by blast
  with assms(1) show ?thesis by (simp add: findOptimalRouteTSP_def)
qed

lemma zeroResults_matrix:
  "getDistanceMatrix zeroResultsEnv [Some (stop 0), Some (stop 1)] True =
     Inr [[Some \<lparr>distance = Some 0, duration = Some 0, duration_in_traffic = None\<rparr>, None],
          [None, Some \<lparr>distance = Some 0, duration = Some 0, duration_in_traffic = None\<rparr>]]"
  by code_simp

lemma zeroResults_answer:
  "httpGet zeroResultsEnv [stop 0, stop 1] True =
     Inr \<lparr>dataStatus = ''OK'',
          dataRows = [[okElement 0, zeroResultsElement], [zeroResultsElement, okElement 0]]\<rparr>"
  by code_simp

lemma zeroResults_status: "status zeroResultsElement = ''ZERO_RESULTS''"
  by (simp add: zeroResultsElement_def)

lemma zeroResults_tsp:
  "findOptimalRouteTSP zeroResultsEnv [Some (stop 1)] (Some (stop 0)) = Inl FailedOptimizeTSP"
  by code_simp

text \<open>
  Claim C7, as stated, fails: the provider reports \<^verbatim>\<open>ZERO_RESULTS\<close> for the legs between two
  stops, and the call returns a matrix.
\<close>

theorem getDistanceMatrix_leg_status_counterexample:
  "httpGet zeroResultsEnv [stop 0, stop 1] True =
     Inr \<lparr>dataStatus = ''OK'',
          dataRows = [[okElement 0, zeroResultsElement], [zeroResultsElement, okElement 0]]\<rparr> \<and>
   status zeroResultsElement = ''ZERO_RESULTS'' \<and>
   getDistanceMatrix zeroResultsEnv [Some (stop 0), Some (stop 1)] True =
     Inr [[Some \<lparr>distance = Some 0, duration = Some 0, duration_in_traffic = None\<rparr>, None],
          [None, Some \<lparr>distance = Some 0, duration = Some 0, duration_in_traffic = None\<rparr>]]"
  using zeroResults_answer zeroResults_status zeroResults_matrix by simp

text \<open>
  Claim C7, amended: with nothing cached, \<open>getDistanceMatrix\<close> fails when the request is
  rejected and when the top-level status of the answer is not \<^verbatim>\<open>OK\<close>; otherwise it returns
  the matrix of the answer, in which exactly the legs whose own status is not \<^verbatim>\<open>OK\<close> are
  \<^verbatim>\<open>null\<close> cells (no distance is put in their place); and \<open>findOptimalRouteTSP\<close> fails on a
  matrix with a \<^verbatim>\<open>null\<close> cell.
\<close>

theorem getDistanceMatrix_failure_modes:
  assumes "cacheGet e points considerTraffic = None" and "None \<notin> set points"
  shows "(\<forall>err. httpGet e (map the points) considerTraffic = Inl err \<longrightarrow>
            getDistanceMatrix e points considerTraffic = Inl FailedDistanceMatrix) \<and>
         (\<forall>resp. httpGet e (map the points) considerTraffic = Inr resp \<longrightarrow>
            (dataStatus resp \<noteq> ''OK'' \<longrightarrow>
               getDistanceMatrix e points considerTraffic = Inl FailedDistanceMatrix) \<and>
            (dataStatus resp = ''OK'' \<longrightarrow>
               getDistanceMatrix e points considerTraffic =
                 Inr (map (map formatElement) (dataRows resp)))) \<and>
         (\<forall>element. formatElement element = None \<longleftrightarrow> status element \<noteq> ''OK'') \<and>
         (\<forall>start rest raw.
            getDistanceMatrix e (start # rest) True = Inr raw \<and> \<not> noNullCell raw \<longrightarrow>
            findOptimalRouteTSP e rest start = Inl FailedOptimizeTSP)"
proof (intro conjI allI impI)
  fix err assume "httpGet e (map the points) considerTraffic = Inl err"
  with assms show "getDistanceMatrix e points considerTraffic = Inl FailedDistanceMatrix"
    by (simp add: getDistanceMatrix_def)
next
  fix resp assume "httpGet e (map the points) considerTraffic = Inr resp" "dataStatus resp \<noteq> ''OK''"
  with assms show "getDistanceMatrix e points considerTraffic = Inl FailedDistanceMatrix"
    by (simp add: getDistanceMatrix_def)
next
  fix resp assume "httpGet e (map the points) considerTraffic = Inr resp" "dataStatus resp = ''OK''"
  with assms show "getDistanceMatrix e points considerTraffic =
      Inr (map (map formatElement) (dataRows resp))"
    by (simp add: getDistanceMatrix_def)
next
  fix element :: element
  show "formatElement element = None \<longleftrightarrow> status element \<noteq> ''OK''"
    by (simp add: formatElement_def)
next
  fix start rest raw
  assume "getDistanceMatrix e (start # rest) True = Inr raw \<and> \<not> noNullCell raw"
  then show "findOptimalRouteTSP e rest start = Inl FailedOptimizeTSP"
    using findOptimalRouteTSP_null_cell by blast
qed

theorem getDistanceMatrix_failure_modes_witness:
  "cacheGet zeroResultsEnv [Some (stop 0), Some (stop 1)] True = None \<and>
   None \<notin> set [Some (stop 0), Some (stop 1)] \<and>
   getDistanceMatrix zeroResultsEnv [Some (stop 0), Some (stop 1)] True =
     Inr (map (map formatElement)
       [[okElement 0, zeroResultsElement], [zeroResultsElement, okElement 0]]) \<and>
   formatElement zeroResultsElement = None \<and>
   findOptimalRouteTSP zeroResultsEnv [Some (stop 1)] (Some (stop 0)) = Inl FailedOptimizeTSP"
proof -
  have cache: "cacheGet zeroResultsEnv [Some (stop 0), Some (stop 1)] True = None"
    by (simp add: zeroResultsEnv_def envOf_def)
  have pts: "None \<notin> set [Some (stop 0), Some (stop 1)]" by simp
  have null: "\<not> noNullCell
     [[Some \<lparr>distance = Some 0, duration = Some 0, duration_in_traffic = None\<rparr>, None],
      [None, Some \<lparr>distance = Some 0, duration = Some 0, duration_in_traffic = None\<rparr>]]"
    by (simp add: noNullCell_def)
  note modes = getDistanceMatrix_failure_modes [OF cache pts]
  from modes zeroResults_answer
  have matrix: "getDistanceMatrix zeroResultsEnv [Some (stop 0), Some (stop 1)] True =
     Inr (map (map formatElement)
       [[okElement 0, zeroResultsElement], [zeroResultsElement, okElement 0]])"
    by simp
  from modes zeroResults_status have cell: "formatElement zeroResultsElement = None"
    by simp
  from modes zeroResults_matrix null
  have tsp: "findOptimalRouteTSP zeroResultsEnv [Some (stop 1)] (Some (stop 0)) =
      Inl FailedOptimizeTSP"
    by blast
  from cache pts matrix cell tsp show ?thesis by blast
qed

section \<open>The frontier heuristic on the provider's matrix\<close>

lemma valueAt_objects:
  assumes "objectsOnly m" and "a < length m"
  shows "\<exists>d. valueAt m a b = Inr d \<and> toNumber d = NaN"
proof (cases "b < length (m ! a)")
  case True
  from assms(2) have "m ! a \<in> set m" by simp
  moreover from True have "m ! a ! b \<in> set (m ! a)" by simp
  ultimately obtain c where "m ! a ! b = JObject c"
    using assms(1) unfolding objectsOnly_def by blast
  with True assms(2) show ?thesis by (simp add: valueAt_def)
next
  case False
  with assms(2) show ?thesis by (simp add: valueAt_def)
qed

lemma relaxFrom_objects:
  assumes "objectsOnly m" and "cur < length m"
  shows "relaxFrom m visited cur is ds = Inr ds"
proof (induction "is")
  case Nil
  show ?case by simp
next
  case (Cons i rest)
  from valueAt_objects [OF assms, of i] obtain d where
    d: "valueAt m cur i = Inr d" "toNumber d = NaN" by blast
  then have "\<not> jsvLess d (ds ! i)" by (simp add: jsvLess_def)
  with d(1) Cons.IH show ?case by simp
qed

lemma selectNext_nothing:
  "\<forall>i \<in> set is. visited ! i \<or> ds ! i = JNumber (Num \<infinity>) \<Longrightarrow>
     selectNext visited ds is (JNumber (Num \<infinity>), None) = (JNumber (Num \<infinity>), None)"
proof (induction "is")
  case Nil
  show ?case by simp
next
  case (Cons i rest)
  from Cons.prems have "visited ! i \<or> \<not> jsvLess (ds ! i) (JNumber (Num \<infinity>))"
    by (auto simp: jsvLess_def)
  moreover from Cons.prems have "\<forall>i \<in> set rest. visited ! i \<or> ds ! i = JNumber (Num \<infinity>)"
    by simp
  ultimately show ?case using Cons.IH by auto
qed

lemma frontierPath_objects:
  assumes obj: "objectsOnly m" and rows: "0 < length m"
  shows "frontierPath m n = Inr [0]"
proof (cases "1 < n")
  case False
  then show ?thesis unfolding frontierPath_def by (subst frontierLoop.simps) simp
next
  case True
  let ?visited = "(replicate n False)[0 := True]"
  let ?ds = "(replicate n (JNumber (Num \<infinity>)))[0 := JNumber (Num 0)]"
  have relax: "relaxFrom m ?visited 0 [0..<n] ?ds = Inr ?ds"
    by (rule relaxFrom_objects [OF obj rows])
  have "\<forall>i \<in> set [0..<n]. ?visited ! i \<or> ?ds ! i = JNumber (Num \<infinity>)"
  proof
    fix i assume "i \<in> set [0..<n]"
    then have "i < n" by simp
    then show "?visited ! i \<or> ?ds ! i = JNumber (Num \<infinity>)"
      by (cases "i = 0") simp_all
  qed
  from selectNext_nothing [OF this]
  have sel: "selectNext ?visited ?ds [0..<n] (JNumber (Num \<infinity>), None) =
      (JNumber (Num \<infinity>), None)" .
  from True relax sel show ?thesis
    unfolding frontierPath_def by (subst frontierLoop.simps) simp
qed

text \<open>
  On every matrix of the provider that has a row and no \<^verbatim>\<open>null\<close> cell, whatever its
  distances, the route of \<open>findOptimalRoute\<close> is the start point alone.
\<close>

lemma findOptimalRoute_objects_hub_only:
  assumes "getDistanceMatrix e (start # points) True = Inr raw"
    and "noNullCell raw" and "raw \<noteq> []"
  shows "findOptimalRoute e points start = Inr [start]"
proof -
  have "objectsOnly (map (map cellValue) raw)"
    unfolding objectsOnly_def
  proof (intro ballI)
    fix row v assume "row \<in> set (map (map cellValue) raw)" "v \<in> set row"
    then obtain r c where "r \<in> set raw" "c \<in> set r" "v = cellValue c" by auto
    with assms(2) have "c \<noteq> None" unfolding noNullCell_def by (cases c) auto
    with \<open>v = cellValue c\<close> show "\<exists>obj. v = JObject obj" by (cases c) (simp_all add: cellValue_def)
  qed
  moreover from assms(3) have "0 < length (map (map cellValue) raw)" by simp
  ultimately have "frontierPath (map (map cellValue) raw) (length (start # points)) = Inr [0]"
    by (rule frontierPath_objects)
  with assms(1) show ?thesis by (simp add: findOptimalRoute_def pointAt_def)
qed

lemma frontierPath_numbers:
  "frontierPath (map (map (\<lambda>d. JNumber (Num d))) scenarioMatrix) 4 = Inr [0, 1, 2, 3]"
  by code_simp

text \<open>
  Claim C2: on the scenario matrix as the provider supplies it, \<open>findOptimalRoute\<close> returns
  the hub alone and not the route H, A, B, C, because a cell object never compares less
  than a number (\<open>findOptimalRoute_objects_hub_only\<close>). On the bare numbers of the same
  matrix the loop gives H, A, B, C (\<open>frontierPath_numbers\<close>).
\<close>

theorem findOptimalRoute_scenario_hub_only:
  "findOptimalRoute scenarioEnv [Some (stop 1), Some (stop 2), Some (stop 3)] (Some (stop 0)) =
     Inr [Some (stop 0)]"
  by code_simp

section \<open>The controller\<close>

text \<open>
  Claim C8: \<open>optimizeRoute\<close> with an empty list of delivery points answers 400 (invalid
  input) and no route.
\<close>

theorem optimizeRoute_no_delivery_points:
  "optimizeRoute e (body\<lparr>deliveryPoints := Some []\<rparr>) =
     Status400 ''Delivery points are required and must be a non-empty array''"
  by (simp add: optimizeRoute_def)

lemma compareAlgorithms_Status200:
  assumes "compareAlgorithms e body = Status200 d"
  shows "\<exists>points processed.
           deliveryPoints body = Some points \<and> points \<noteq> [] \<and>
           mapE (processPoint e) points = Inr processed \<and>
           findOptimalRoute e processed (startPoint body) = Inr (dijkstraRoute d) \<and>
           calculateRouteMetrics e (dijkstraRoute d) = Inr (dijkstraMetrics d) \<and>
           findOptimalRouteTSP e processed (startPoint body) = Inr (tspRoute d) \<and>
           calculateTSPRouteMetrics e (tspRoute d) = Inr (tspMetrics d) \<and>
           recommended d =
             (if totalDistance (tspMetrics d) \<le> totalDistance (dijkstraMetrics d)
              then ''tsp'' else ''dijkstra'')"
proof -
  from assms obtain points where points: "deliveryPoints body = Some points" "points \<noteq> []"
    and start: "hasLatLng (startPoint body)"
    by (auto simp: compareAlgorithms_def split: option.splits if_splits)
  from assms points start obtain processed where
    processed: "mapE (processPoint e) points = Inr processed"
    by (cases "mapE (processPoint e) points") (simp_all add: compareAlgorithms_def)
  from assms points start processed obtain dRoute where
    dRoute: "findOptimalRoute e processed (startPoint body) = Inr dRoute"
    by (cases "findOptimalRoute e processed (startPoint body)") (simp_all add: compareAlgorithms_def)
  from assms points start processed dRoute obtain dMetrics where
    dMetrics: "calculateRouteMetrics e dRoute = Inr dMetrics"
    by (cases "calculateRouteMetrics e dRoute") (simp_all add: compareAlgorithms_def)
  from assms points start processed dRoute dMetrics obtain tRoute where
    tRoute: "findOptimalRouteTSP e processed (startPoint body) = Inr tRoute"
    by (cases "findOptimalRouteTSP e processed (startPoint body)")
      (simp_all add: compareAlgorithms_def)
  from assms points start processed dRoute dMetrics tRoute obtain tMetrics where
    tMetrics: "calculateTSPRouteMetrics e tRoute = Inr tMetrics"
    by (cases "calculateTSPRouteMetrics e tRoute") (simp_all add: compareAlgorithms_def)
  from assms points start processed dRoute dMetrics tRoute tMetrics
  have d: "d = \<lparr>dijkstraRoute = dRoute, dijkstraMetrics = dMetrics,
                tspRoute = tRoute, tspMetrics = tMetrics,
                distanceDifference = fl e \<bar>totalDistance dMetrics - totalDistance tMetrics\<bar>,
                timeDifference = fl e \<bar>totalTime dMetrics - totalTime tMetrics\<bar>,
                recommended =
                  (if totalDistance tMetrics \<le> totalDistance dMetrics
                   then ''tsp'' else ''dijkstra'')\<rparr>"
    by (simp add: compareAlgorithms_def)
  show ?thesis
    using points processed dRoute dMetrics tRoute tMetrics by (simp add: d)
qed

lemma compareAlgorithms_scenario:
  "compareAlgorithms scenarioEnv (optimizeBody [Some (stop 1), Some (stop 2), Some (stop 3)] ''any'') =
     Status200 scenarioComparison"
  by code_simp

lemma compareAlgorithms_tie:
  "compareAlgorithms scenarioEnv (optimizeBody [Some (stop 0)] ''any'') =
     Status200
       \<lparr>dijkstraRoute = [Some (stop 0)],
        dijkstraMetrics = \<lparr>totalDistance = 0, totalTime = 0, fuelSavingsPercentage = None\<rparr>,
        tspRoute = [Some (stop 0), Some (stop 0)],
        tspMetrics = \<lparr>totalDistance = 0, totalTime = 0, fuelSavingsPercentage = Some ''NaN''\<rparr>,
        distanceDifference = 0, timeDifference = 0,
        recommended = ''tsp''\<rparr>"
  by code_simp

text \<open>
  Claim C5: when \<open>compareAlgorithms\<close> answers, the two metrics are those computed for the
  routes of the two algorithms on the same points and start, and \<open>recommended\<close> names the
  algorithm whose total distance is strictly smaller, and the TSP family when the two
  total distances are equal.
\<close>

theorem compareAlgorithms_recommended:
  assumes "compareAlgorithms e body = Status200 d"
  shows "(\<exists>points processed.
            deliveryPoints body = Some points \<and>
            mapE (processPoint e) points = Inr processed \<and>
            findOptimalRoute e processed (startPoint body) = Inr (dijkstraRoute d) \<and>
            calculateRouteMetrics e (dijkstraRoute d) = Inr (dijkstraMetrics d) \<and>
            findOptimalRouteTSP e processed (startPoint body) = Inr (tspRoute d) \<and>
            calculateTSPRouteMetrics e (tspRoute d) = Inr (tspMetrics d)) \<and>
         (totalDistance (tspMetrics d) < totalDistance (dijkstraMetrics d) \<longrightarrow>
            recommended d = ''tsp'') \<and>
         (totalDistance (dijkstraMetrics d) < totalDistance (tspMetrics d) \<longrightarrow>
            recommended d = ''dijkstra'') \<and>
         (totalDistance (tspMetrics d) = totalDistance (dijkstraMetrics d) \<longrightarrow>
            recommended d = ''tsp'')"
proof -
  from compareAlgorithms_Status200 [OF assms] obtain points processed where
    run: "deliveryPoints body = Some points"
      "mapE (processPoint e) points = Inr processed"
      "findOptimalRoute e processed (startPoint body) = Inr (dijkstraRoute d)"
      "calculateRouteMetrics e (dijkstraRoute d) = Inr (dijkstraMetrics d)"
      "findOptimalRouteTSP e processed (startPoint body) = Inr (tspRoute d)"
      "calculateTSPRouteMetrics e (tspRoute d) = Inr (tspMetrics d)"
    and rec: "recommended d =
      (if totalDistance (tspMetrics d) \<le> totalDistance (dijkstraMetrics d)
       then ''tsp'' else ''dijkstra'')"
    by blast
  from run have "\<exists>points processed.
            deliveryPoints body = Some points \<and>
            mapE (processPoint e) points = Inr processed \<and>
            findOptimalRoute e processed (startPoint body) = Inr (dijkstraRoute d) \<and>
            calculateRouteMetrics e (dijkstraRoute d) = Inr (dijkstraMetrics d) \<and>
            findOptimalRouteTSP e processed (startPoint body) = Inr (tspRoute d) \<and>
            calculateTSPRouteMetrics e (tspRoute d) = Inr (tspMetrics d)" by blast
  moreover from rec have "totalDistance (tspMetrics d) < totalDistance (dijkstraMetrics d) \<longrightarrow>
            recommended d = ''tsp''" by simp
  moreover from rec have "totalDistance (dijkstraMetrics d) < totalDistance (tspMetrics d) \<longrightarrow>
            recommended d = ''dijkstra''" by simp
  moreover from rec have "totalDistance (tspMetrics d) = totalDistance (dijkstraMetrics d) \<longrightarrow>
            recommended d = ''tsp''" by simp
  ultimately show ?thesis by blast
qed


theorem compareAlgorithms_recommended_witness:
  "compareAlgorithms scenarioEnv
     (optimizeBody [Some (stop 1), Some (stop 2), Some (stop 3)] ''any'') =
     Status200 scenarioComparison \<and>
   totalDistance (dijkstraMetrics scenarioComparison) <
     totalDistance (tspMetrics scenarioComparison) \<and>
   recommended scenarioComparison = ''dijkstra''"
proof -
  have less: "totalDistance (dijkstraMetrics scenarioComparison) <
      totalDistance (tspMetrics scenarioComparison)"
    by (simp add: scenarioComparison_def)
  from compareAlgorithms_recommended [OF compareAlgorithms_scenario] less
  have "recommended scenarioComparison = ''dijkstra''" by blast
  with compareAlgorithms_scenario less show ?thesis by blast
qed

section \<open>Routes begin with their start point\<close>

lemma nnLoop_extends: "nnLoop m visited tour = Inr out \<Longrightarrow> \<exists>ext. out = tour @ ext"
proof (induction m visited tour rule: nnLoop.induct)
  case (1 m visited tour)
  show ?case
  proof (cases "length tour < length m")
    case False
    with "1.prems" show ?thesis by (subst (asm) nnLoop.simps) simp
  next
    case True
    show ?thesis
    proof (cases "scanNearest m visited (last tour) [0..<length m] (None, Num \<infinity>)")
      case (Inl err)
      with True "1.prems" show ?thesis by (subst (asm) nnLoop.simps) simp
    next
      case (Inr r)
      obtain np d where r: "r = (np, d)" by (cases r)
      show ?thesis
      proof (cases np)
        case None
        with True Inr r "1.prems" show ?thesis by (subst (asm) nnLoop.simps) simp
      next
        case (Some p)
        with True Inr r "1.prems" have "nnLoop m (visited[p := True]) (tour @ [p]) = Inr out"
          by (subst (asm) nnLoop.simps) simp
        from "1.IH" [OF True Inr r [symmetric] Some this] show ?thesis by auto
      qed
    qed
  qed
qed

lemma nearestNeighbor_starts:
  assumes "nearestNeighbor m startIndex = Inr out"
  shows "out \<noteq> [] \<and> out ! 0 = startIndex"
proof -
  from assms nnLoop_extends obtain ext where "out = [startIndex] @ ext"
    unfolding nearestNeighbor_def by blast
  then show ?thesis by simp
qed

lemma firstImprovement_keeps_start:
  "firstImprovement m best bestDistance ps = Inr (Some (t', d')) \<Longrightarrow>
     length t' = length best \<and> t' ! 0 = best ! 0"
proof (induction ps)
  case Nil
  then show ?case by simp
next
  case (Cons ij rest)
  obtain i j where ij: "ij = (i, j)" by (cases ij)
  let ?t = "reverseSegment best (i + 1) j"
  show ?case
  proof (cases "calculateTourDistance ?t m")
    case (Inl err)
    with Cons.prems ij show ?thesis by simp
  next
    case (Inr d)
    show ?thesis
    proof (cases "jsLess d bestDistance")
      case True
      with Cons.prems ij Inr have "t' = ?t" by simp
      moreover have "?t ! 0 = best ! 0" by (rule reverseSegment_below) simp
      ultimately show ?thesis by (simp add: reverseSegment_length)
    next
      case False
      with Cons.prems ij Inr have "firstImprovement m best bestDistance rest = Inr (Some (t', d'))"
        by simp
      from Cons.IH [OF this] show ?thesis .
    qed
  qed
qed

lemma twoOptLoop_keeps_start:
  "twoOptLoop m best bestDistance it maxIt = Inr out \<Longrightarrow>
     length out = length best \<and> out ! 0 = best ! 0"
proof (induction m best bestDistance it maxIt rule: twoOptLoop.induct)
  case (1 m best bestDistance it maxIt)
  show ?case
  proof (cases "it < maxIt")
    case False
    with "1.prems" show ?thesis by (subst (asm) twoOptLoop.simps) simp
  next
    case True
    show ?thesis
    proof (cases "firstImprovement m best bestDistance (swapPairs (length best))")
      case (Inl err)
      with True "1.prems" show ?thesis by (subst (asm) twoOptLoop.simps) simp
    next
      case (Inr r)
      show ?thesis
      proof (cases r)
        case None
        with True Inr "1.prems" show ?thesis by (subst (asm) twoOptLoop.simps) simp
      next
        case (Some td)
        obtain t' d' where td: "td = (t', d')" by (cases td)
        from True Inr Some td "1.prems" have "twoOptLoop m t' d' (it + 1) maxIt = Inr out"
          by (subst (asm) twoOptLoop.simps) simp
        from "1.IH" [OF True Inr Some td [symmetric] this]
        have "length out = length t' \<and> out ! 0 = t' ! 0" .
        moreover from Inr Some td
        have "firstImprovement m best bestDistance (swapPairs (length best)) = Inr (Some (t', d'))"
          by simp
        from firstImprovement_keeps_start [OF this]
        have "length t' = length best \<and> t' ! 0 = best ! 0" .
        ultimately show ?thesis by simp
      qed
    qed
  qed
qed

lemma twoOptImprovement_keeps_start:
  assumes "twoOptImprovement tour m maxIt = Inr out"
  shows "length out = length tour \<and> out ! 0 = tour ! 0"
proof (cases "calculateTourDistance tour m")
  case (Inl err)
  with assms show ?thesis by (simp add: twoOptImprovement_def)
next
  case (Inr d)
  with assms have "twoOptLoop m tour d 0 maxIt = Inr out" by (simp add: twoOptImprovement_def)
  from twoOptLoop_keeps_start [OF this] show ?thesis .
qed

lemma findOptimalRouteTSP_starts:
  assumes "findOptimalRouteTSP e points start = Inr route"
  shows "route \<noteq> [] \<and> route ! 0 = start"
proof -
  from assms obtain raw where raw: "getDistanceMatrix e (start # points) True = Inr raw"
    by (cases "getDistanceMatrix e (start # points) True") (simp_all add: findOptimalRouteTSP_def)
  from assms raw obtain m where m: "mapE (mapE convertCell) raw = Inr m"
    by (cases "mapE (mapE convertCell) raw") (simp_all add: findOptimalRouteTSP_def)
  from assms raw m obtain initialTour where nn: "nearestNeighbor m 0 = Inr initialTour"
    by (cases "nearestNeighbor m 0") (simp_all add: findOptimalRouteTSP_def)
  from assms raw m nn obtain tour where
    opt: "twoOptImprovement initialTour m 100 = Inr tour"
    by (cases "twoOptImprovement initialTour m 100") (simp_all add: findOptimalRouteTSP_def)
  from assms raw m nn opt have route: "route = map (pointAt (start # points)) tour"
    by (simp add: findOptimalRouteTSP_def)
  from nearestNeighbor_starts [OF nn] twoOptImprovement_keeps_start [OF opt]
  have "tour \<noteq> []" "tour ! 0 = 0" by auto
  then show ?thesis by (simp add: route pointAt_def)
qed

lemma frontierLoop_extends:
  "frontierLoop m n visited distances path cur = Inr out \<Longrightarrow> \<exists>ext. out = path @ ext"
proof (induction m n visited distances path cur rule: frontierLoop.induct)
  case (1 m n visited distances path cur)
  show ?case
  proof (cases "length path < n")
    case False
    with "1.prems" show ?thesis by (subst (asm) frontierLoop.simps) simp
  next
    case True
    show ?thesis
    proof (cases "relaxFrom m visited cur [0..<n] distances")
      case (Inl err)
      with True "1.prems" show ?thesis by (subst (asm) frontierLoop.simps) simp
    next
      case (Inr distances')
      obtain md np where sel:
        "selectNext visited distances' [0..<n] (JNumber (Num \<infinity>), None) = (md, np)"
        by (cases "selectNext visited distances' [0..<n] (JNumber (Num \<infinity>), None)")
      show ?thesis
      proof (cases np)
        case None
        with True Inr sel "1.prems" show ?thesis by (subst (asm) frontierLoop.simps) simp
      next
        case (Some p)
        with True Inr sel "1.prems"
        have "frontierLoop m n (visited[p := True]) distances' (path @ [p]) p = Inr out"
          by (subst (asm) frontierLoop.simps) simp
        from "1.IH" [OF True Inr sel [symmetric] Some this] show ?thesis by auto
      qed
    qed
  qed
qed

lemma findOptimalRoute_starts:
  assumes "findOptimalRoute e points start = Inr route"
  shows "route \<noteq> [] \<and> route ! 0 = start"
proof -
  from assms obtain raw where raw: "getDistanceMatrix e (start # points) True = Inr raw"
    by (cases "getDistanceMatrix e (start # points) True") (simp_all add: findOptimalRoute_def)
  from assms raw obtain path where
    path: "frontierPath (map (map cellValue) raw) (length (start # points)) = Inr path"
    by (cases "frontierPath (map (map cellValue) raw) (length (start # points))")
      (simp_all add: findOptimalRoute_def)
  from assms raw path have route: "route = map (pointAt (start # points)) path"
    by (simp add: findOptimalRoute_def)
  from path frontierLoop_extends obtain ext where "path = [0] @ ext"
    unfolding frontierPath_def by blast
  then show ?thesis by (simp add: route pointAt_def)
qed

section \<open>Reoptimization keeps the part of the route already travelled\<close>

lemma reoptimizeRoute_prefix:
  assumes "reoptimizeRoute e route k = Inr combined" and "k < length route"
  shows "take k combined = take k route \<and> k < length combined \<and> combined ! k = route ! k"
proof -
  let ?remaining = "drop k route"
  from assms(1) obtain r where
    r: "findOptimalRoute e (drop 1 ?remaining) (pointAt ?remaining 0) = Inr r"
    by (cases "findOptimalRoute e (drop 1 ?remaining) (pointAt ?remaining 0)")
      (simp_all add: reoptimizeRoute_def)
  with assms(1) have combined: "combined = take k route @ r" by (simp add: reoptimizeRoute_def)
  from findOptimalRoute_starts [OF r] have "r \<noteq> []" "r ! 0 = pointAt ?remaining 0" by simp_all
  moreover from assms(2) have "pointAt ?remaining 0 = route ! k" by (simp add: pointAt_def)
  moreover from assms(2) have "length (take k route) = k" by simp
  ultimately show ?thesis by (simp add: combined nth_append)
qed

lemma reoptimizeCurrentRoute_Status200:
  assumes "reoptimizeCurrentRoute e body = Status200 d"
    and "currentRoute body = Some route" and "currentPointIndex body = Some index"
  shows "0 \<le> index \<and> index < int (length route) \<and>
         (if algorithmName body = ''tsp''
          then (\<exists>r. findOptimalRouteTSP e (drop 1 (drop (nat index) route)) (currentPosition body) = Inr r \<and>
                  reoptimizedRoute d = take (nat index) route @ r)
          else reoptimizeRoute e route (nat index) = Inr (reoptimizedRoute d))"
proof -
  from assms have range: "0 \<le> index" "index < int (length route)"
    by (auto simp: reoptimizeCurrentRoute_def split: if_splits)
  from assms have pre: "route \<noteq> []" "hasLatLng (currentPosition body)"
    by (auto simp: reoptimizeCurrentRoute_def split: if_splits)
  show ?thesis
  proof (cases "algorithmName body = ''tsp''")
    case True
    let ?call = "findOptimalRouteTSP e (drop 1 (drop (nat index) route)) (currentPosition body)"
    from assms range pre True obtain r where r: "?call = Inr r"
      by (cases ?call) (simp_all add: reoptimizeCurrentRoute_def)
    from assms range pre True r have "reoptimizedRoute d = take (nat index) route @ r"
      by (cases "calculateTSPRouteMetrics e (take (nat index) route @ r)")
        (auto simp: reoptimizeCurrentRoute_def)
    with range True r show ?thesis by simp
  next
    case False
    from assms range pre False obtain combined where
      c: "reoptimizeRoute e route (nat index) = Inr combined"
      by (cases "reoptimizeRoute e route (nat index)") (simp_all add: reoptimizeCurrentRoute_def)
    from assms range pre False c have "reoptimizedRoute d = combined"
      by (cases "calculateRouteMetrics e combined") (auto simp: reoptimizeCurrentRoute_def)
    with range False c show ?thesis by simp
  qed
qed

lemma toLowerCase_tsp: "toLowerCase ''tsp'' = ''tsp''"
  by code_simp

lemma reoptimize_tsp_scenario:
  "reoptimizedRouteOf (reoptimizeCurrentRoute scenarioEnv (reoptimizeBody ''tsp'')) =
     Some [Some (stop 0), Some driverPosition, Some (stop 2), Some (stop 3)]"
  by code_simp

lemma reoptimize_dijkstra_scenario:
  "reoptimizeCurrentRoute scenarioEnv (reoptimizeBody ''dijkstra'') = Status200 scenarioReoptimized"
  by code_simp

lemma driverPosition_not_stop: "driverPosition \<noteq> stop 1"
  by (simp add: driverPosition_def stop_def)

text \<open>
  Claim C4, as stated, fails for the TSP choice: the route H, A, B, C reoptimized at index 1
  comes back with the driver's position, not the stop A, at index 1.
\<close>

theorem reoptimize_prefix_counterexample:
  "currentRoute (reoptimizeBody ''tsp'') =
     Some [Some (stop 0), Some (stop 1), Some (stop 2), Some (stop 3)] \<and>
   currentPointIndex (reoptimizeBody ''tsp'') = Some 1 \<and>
   reoptimizedRouteOf (reoptimizeCurrentRoute scenarioEnv (reoptimizeBody ''tsp'')) =
     Some [Some (stop 0), Some driverPosition, Some (stop 2), Some (stop 3)] \<and>
   Some driverPosition \<noteq> Some (stop 1)"
  using reoptimize_tsp_scenario driverPosition_not_stop by (simp add: reoptimizeBody_def)

text \<open>
  Claim C4, amended: when \<open>reoptimizeCurrentRoute\<close> answers with a route, the index is in
  range and the route agrees with the caller's route on the positions before
  \<open>currentPointIndex\<close>; at \<open>currentPointIndex\<close> itself it holds the caller's stop for the
  frontier choice and the supplied \<open>currentPosition\<close> for the TSP choice.
\<close>

theorem reoptimize_keeps_prefix:
  assumes "reoptimizeCurrentRoute e body = Status200 d"
    and "currentRoute body = Some route" and "currentPointIndex body = Some index"
  shows "0 \<le> index \<and> index < int (length route) \<and>
         take (nat index) (reoptimizedRoute d) = take (nat index) route \<and>
         nat index < length (reoptimizedRoute d) \<and>
         (algorithmName body \<noteq> ''tsp'' \<longrightarrow> reoptimizedRoute d ! nat index = route ! nat index) \<and>
         (algorithmName body = ''tsp'' \<longrightarrow> reoptimizedRoute d ! nat index = currentPosition body)"
proof -
  note run = reoptimizeCurrentRoute_Status200 [OF assms]
  then have range: "0 \<le> index" "index < int (length route)" by simp_all
  then have k: "nat index < length route" by simp
  show ?thesis
  proof (cases "algorithmName body = ''tsp''")
    case True
    with run obtain r where
      r: "findOptimalRouteTSP e (drop 1 (drop (nat index) route)) (currentPosition body) = Inr r"
      and d: "reoptimizedRoute d = take (nat index) route @ r" by auto
    from findOptimalRouteTSP_starts [OF r] have "r \<noteq> []" "r ! 0 = currentPosition body"
      by simp_all
    moreover from k have "length (take (nat index) route) = nat index" by simp
    ultimately show ?thesis using range True by (simp add: d nth_append)
  next
    case False
    with run have "reoptimizeRoute e route (nat index) = Inr (reoptimizedRoute d)" by simp
    from reoptimizeRoute_prefix [OF this k] range False show ?thesis by simp
  qed
qed


theorem reoptimize_keeps_prefix_witness:
  "reoptimizeCurrentRoute scenarioEnv (reoptimizeBody ''dijkstra'') = Status200 scenarioReoptimized \<and>
   currentRoute (reoptimizeBody ''dijkstra'') =
     Some [Some (stop 0), Some (stop 1), Some (stop 2), Some (stop 3)] \<and>
   currentPointIndex (reoptimizeBody ''dijkstra'') = Some 1 \<and>
   take (nat 1) (reoptimizedRoute scenarioReoptimized) =
     take (nat 1) [Some (stop 0), Some (stop 1), Some (stop 2), Some (stop 3)] \<and>
   nat 1 < length (reoptimizedRoute scenarioReoptimized) \<and>
   reoptimizedRoute scenarioReoptimized ! nat 1 =
     [Some (stop 0), Some (stop 1), Some (stop 2), Some (stop 3)] ! nat 1"
proof -
  have route: "currentRoute (reoptimizeBody ''dijkstra'') =
      Some [Some (stop 0), Some (stop 1), Some (stop 2), Some (stop 3)]"
    by (simp add: reoptimizeBody_def)
  have index: "currentPointIndex (reoptimizeBody ''dijkstra'') = Some 1"
    by (simp add: reoptimizeBody_def)
  have name: "algorithmName (reoptimizeBody ''dijkstra'') \<noteq> ''tsp''"
    by code_simp
  from reoptimize_keeps_prefix [OF reoptimize_dijkstra_scenario route index] name
  have "take (nat 1) (reoptimizedRoute scenarioReoptimized) =
          take (nat 1) [Some (stop 0), Some (stop 1), Some (stop 2), Some (stop 3)] \<and>
        nat 1 < length (reoptimizedRoute scenarioReoptimized) \<and>
        reoptimizedRoute scenarioReoptimized ! nat 1 =
          [Some (stop 0), Some (stop 1), Some (stop 2), Some (stop 3)] ! nat 1"
    by blast
  with reoptimize_dijkstra_scenario route index show ?thesis by blast
qed

section \<open>Routes as permutations of the input points\<close>

lemma convertCell_present:
  "c \<noteq> None \<Longrightarrow> \<exists>d. convertCell c = Inr d \<and> ((\<exists>obj metres. c = Some obj \<and> distance obj = Some metres) \<longrightarrow> d \<noteq> \<infinity>)"
  by (cases c) (auto simp: convertCell_def split: option.splits)

lemma convert_row:
  assumes "None \<notin> set row"
  shows "\<exists>r. mapE convertCell row = Inr r \<and> length r = length row \<and>
           ((\<forall>c \<in> set row. \<exists>obj metres. c = Some obj \<and> distance obj = Some metres) \<longrightarrow>
              (\<forall>d \<in> set r. d \<noteq> \<infinity>))"
proof -
  have "\<forall>c \<in> set row. \<exists>d. convertCell c = Inr d"
  proof
    fix c assume "c \<in> set row"
    with assms have "c \<noteq> None" by (cases c) simp_all
    from convertCell_present [OF this] show "\<exists>d. convertCell c = Inr d" by blast
  qed
  from mapE_succeeds [OF this] obtain r where
    r: "mapE convertCell row = Inr r" "length r = length row"
      "\<forall>i < length row. convertCell (row ! i) = Inr (r ! i)" by blast
  have "\<forall>d \<in> set r. d \<noteq> \<infinity>"
    if all: "\<forall>c \<in> set row. \<exists>obj metres. c = Some obj \<and> distance obj = Some metres"
  proof
    fix d assume "d \<in> set r"
    then obtain i where i: "i < length r" "d = r ! i" by (auto simp: in_set_conv_nth)
    with r have conv: "convertCell (row ! i) = Inr d" by simp
    from i r(2) have "row ! i \<in> set row" by simp
    with all obtain obj metres where "row ! i = Some obj" "distance obj = Some metres" by blast
    with conv show "d \<noteq> \<infinity>" by (auto simp: convertCell_def)
  qed
  with r(1,2) show ?thesis by blast
qed

lemma convert_matrix:
  assumes null: "noNullCell raw" and sq: "squareMatrix raw"
  shows "\<exists>m. mapE (mapE convertCell) raw = Inr m \<and> length m = length raw \<and> squareMatrix m \<and>
           (everyDistancePresent raw \<longrightarrow> finiteMatrix m)"
proof -
  from null have "\<forall>row \<in> set raw. \<exists>r. mapE convertCell row = Inr r"
    using convert_row unfolding noNullCell_def by blast
  from mapE_succeeds [OF this] obtain m where
    m: "mapE (mapE convertCell) raw = Inr m" "length m = length raw"
      "\<forall>i < length raw. mapE convertCell (raw ! i) = Inr (m ! i)" by blast
  have rows: "length r = length raw \<and>
      (everyDistancePresent raw \<longrightarrow> (\<forall>d \<in> set r. d \<noteq> \<infinity>))" if "r \<in> set m" for r
  proof -
    from that obtain i where i: "i < length m" "r = m ! i" by (auto simp: in_set_conv_nth)
    with m have conv: "mapE convertCell (raw ! i) = Inr r" by simp
    from i m(2) have mem: "raw ! i \<in> set raw" by simp
    with null have "None \<notin> set (raw ! i)" by (simp add: noNullCell_def)
    from convert_row [OF this] conv have
      "length r = length (raw ! i)"
      "(\<forall>c \<in> set (raw ! i). \<exists>obj metres. c = Some obj \<and> distance obj = Some metres) \<longrightarrow>
          (\<forall>d \<in> set r. d \<noteq> \<infinity>)" by auto
    moreover from sq mem have "length (raw ! i) = length raw" by (simp add: squareMatrix_def)
    moreover have "everyDistancePresent raw \<Longrightarrow>
        \<forall>c \<in> set (raw ! i). \<exists>obj metres. c = Some obj \<and> distance obj = Some metres"
      using mem unfolding everyDistancePresent_def by blast
    ultimately show ?thesis by auto
  qed
  from rows m(2) have "squareMatrix m" by (simp add: squareMatrix_def)
  moreover from rows have "everyDistancePresent raw \<longrightarrow> finiteMatrix m"
    by (auto simp: finiteMatrix_def)
  ultimately show ?thesis using m(1,2) by blast
qed

lemma full_tour_mset:
  assumes "distinct tour" and "\<forall>p \<in> set tour. p < n" and "length tour = n"
  shows "mset tour = mset [0..<n]"
proof -
  from assms(2) have sub: "set tour \<subseteq> {0..<n}" by auto
  from assms(1,3) have "card (set tour) = card {0..<n}" by (simp add: distinct_card)
  with sub have "set tour = {0..<n}" by (intro card_subset_eq) simp_all
  then have "set tour = set [0..<n]" by simp
  with assms(1) show ?thesis by (intro set_eq_iff_mset_eq_distinct [THEN iffD1]) simp_all
qed

lemma map_pointAt_all: "map (pointAt xs) [0..<length xs] = xs"
proof -
  have "map (pointAt xs) [0..<length xs] = map ((!) xs) [0..<length xs]"
    by (rule map_cong) (simp_all add: pointAt_def)
  then show ?thesis by (simp add: map_nth)
qed

lemma permutation_route:
  assumes "mset tour = mset [0..<length xs]"
  shows "mset (map (pointAt xs) tour) = mset xs"
proof -
  have "mset (map (pointAt xs) tour) = image_mset (pointAt xs) (mset tour)" by simp
  also have "\<dots> = image_mset (pointAt xs) (mset [0..<length xs])" by (simp only: assms)
  also have "\<dots> = mset (map (pointAt xs) [0..<length xs])" by simp
  finally show ?thesis by (simp only: map_pointAt_all)
qed

lemma tsp_tour_wellformed:
  assumes sq: "squareMatrix m" and ne: "0 < length m"
  shows "\<exists>initialTour tour. nearestNeighbor m 0 = Inr initialTour \<and>
           twoOptImprovement initialTour m 100 = Inr tour \<and>
           tour \<noteq> [] \<and> hd tour = 0 \<and> distinct tour \<and> (\<forall>p \<in> set tour. p < length m) \<and>
           (finiteMatrix m \<longrightarrow> mset tour = mset [0..<length m])"
proof -
  from nnLoop_inv [OF nnInv_init [OF ne]] obtain t0 where
    loop: "nnLoop m ((replicate (length m) False)[0 := True]) [0] = Inr t0"
    and t0: "hd t0 = hd [0::nat]" "distinct t0" "\<forall>p \<in> set t0. p < length m" "t0 \<noteq> []"
    by blast
  from loop have nn: "nearestNeighbor m 0 = Inr t0" by (simp add: nearestNeighbor_def)
  from t0(3) have valid: "validTour t0 m" by (simp add: validTour_def)
  from calculateTourDistance_valid [OF sq valid] obtain d0 where
    d0: "calculateTourDistance t0 m = Inr (Num d0)" by blast
  from twoOptLoop_valid [OF sq valid d0, of 0 100] obtain tour where
    tour: "twoOptLoop m t0 (Num d0) 0 100 = Inr tour" "mset tour = mset t0" "tour ! 0 = t0 ! 0"
    by blast
  from d0 tour(1) have opt: "twoOptImprovement t0 m 100 = Inr tour"
    by (simp add: twoOptImprovement_def)
  from tour(2) have set_eq: "set tour = set t0" by (rule mset_eq_setD)
  from mset_eq_imp_distinct_iff [OF tour(2)] t0(2) have dist: "distinct tour" by simp
  have tne: "tour \<noteq> []"
  proof
    assume "tour = []"
    with tour(2) have "mset t0 = {#}" by simp
    with t0(4) show False by simp
  qed
  from t0(1,4) have "t0 ! 0 = 0" by (simp add: hd_conv_nth)
  with tour(3) tne have hd: "hd tour = 0" by (simp add: hd_conv_nth)
  from set_eq t0(3) have bound: "\<forall>p \<in> set tour. p < length m" by simp
  have full: "finiteMatrix m \<longrightarrow> mset tour = mset [0..<length m]"
  proof
    assume fin: "finiteMatrix m"
    from nnLoop_complete [OF nnInv_init [OF ne] sq fin loop] have "length t0 = length m" .
    from full_tour_mset [OF t0(2,3) this] tour(2) show "mset tour = mset [0..<length m]" by simp
  qed
  show ?thesis
    by (intro exI [of _ t0] exI [of _ tour] conjI nn opt tne hd dist bound full)
qed

text \<open>
  On a matrix of the provider with a row and a column for each point, whose cells are
  \<^verbatim>\<open>null\<close> or carry a distance, \<open>findOptimalRouteTSP\<close> fails or returns a permutation of the
  hub and all delivery points.
\<close>

lemma findOptimalRouteTSP_permutation_or_fails:
  assumes matrix: "getDistanceMatrix e (start # points) True = Inr raw"
    and rows: "length raw = length (start # points)" and sq: "squareMatrix raw"
    and cells: "\<forall>row \<in> set raw. \<forall>c \<in> set row.
                  c = None \<or> (\<exists>obj metres. c = Some obj \<and> distance obj = Some metres)"
  shows "findOptimalRouteTSP e points start = Inl FailedOptimizeTSP \<or>
         (\<exists>route. findOptimalRouteTSP e points start = Inr route \<and>
            mset route = mset (start # points))"
proof (cases "noNullCell raw")
  case False
  from findOptimalRouteTSP_null_cell [OF matrix False] show ?thesis by simp
next
  case True
  have present: "everyDistancePresent raw"
    unfolding everyDistancePresent_def
  proof (intro ballI)
    fix row c assume row: "row \<in> set raw" and c: "c \<in> set row"
    with True have "c \<noteq> None" unfolding noNullCell_def by (cases c) auto
    with cells row c show "\<exists>obj metres. c = Some obj \<and> distance obj = Some metres" by blast
  qed
  from convert_matrix [OF True sq] present obtain m where
    m: "mapE (mapE convertCell) raw = Inr m" "length m = length raw" "squareMatrix m"
      "finiteMatrix m" by blast
  from m(2) rows have len: "length m = length (start # points)" by simp
  then have "0 < length m" by simp
  from tsp_tour_wellformed [OF m(3) this] m(4) obtain initialTour tour where
    run: "nearestNeighbor m 0 = Inr initialTour" "twoOptImprovement initialTour m 100 = Inr tour"
    and full: "mset tour = mset [0..<length m]" by blast
  from matrix m(1) run
  have res: "findOptimalRouteTSP e points start = Inr (map (pointAt (start # points)) tour)"
    by (simp add: findOptimalRouteTSP_def)
  from full have "mset tour = mset [0..<length (start # points)]" by (simp only: len)
  then have "mset (map (pointAt (start # points)) tour) = mset (start # points)"
    by (rule permutation_route)
  with res show ?thesis by blast
qed

lemma optimizeRoute_scenario_dijkstra:
  "optimizeRoute scenarioEnv
     (optimizeBody [Some (stop 1), Some (stop 2), Some (stop 3)] ''dijkstra'') =
     Status200
       \<lparr>optimizedRoute = [Some (stop 0)],
        optimizedMetrics = \<lparr>totalDistance = 0, totalTime = 0, fuelSavingsPercentage = None\<rparr>,
        optimizedAlgorithm = ''dijkstra''\<rparr>"
  by code_simp

lemma optimizeRoute_scenario_tsp:
  "optimizeRoute scenarioEnv
     (optimizeBody [Some (stop 1), Some (stop 2), Some (stop 3)] ''tsp'') =
     Status200
       \<lparr>optimizedRoute = [Some (stop 0), Some (stop 1), Some (stop 2), Some (stop 3)],
        optimizedMetrics = \<lparr>totalDistance = 3 / 1000, totalTime = 3 / 60,
                            fuelSavingsPercentage = Some ''23.08''\<rparr>,
        optimizedAlgorithm = ''tsp''\<rparr>"
  by code_simp

text \<open>
  Claim C1: the tour that \<open>optimizeRoute\<close> returns is a permutation of the hub and all
  delivery points unless it is flagged as partial. The frontier choice breaks this: in the
  scenario, where the provider reports every leg, the answer is the hub alone and carries
  no flag; the three delivery points are dropped. The TSP choice returns all four points
  on the same request. (The cause is the comparison of cell objects with numbers in
  \<open>findOptimalRoute\<close>, see \<open>findOptimalRoute_objects_hub_only\<close>; for the TSP choice see
  \<open>findOptimalRouteTSP_permutation_or_fails\<close>.)
\<close>

theorem optimizeRoute_frontier_drops_points:
  "optimizeRoute scenarioEnv
     (optimizeBody [Some (stop 1), Some (stop 2), Some (stop 3)] ''dijkstra'') =
     Status200
       \<lparr>optimizedRoute = [Some (stop 0)],
        optimizedMetrics = \<lparr>totalDistance = 0, totalTime = 0, fuelSavingsPercentage = None\<rparr>,
        optimizedAlgorithm = ''dijkstra''\<rparr> \<and>
   optimizeRoute scenarioEnv
     (optimizeBody [Some (stop 1), Some (stop 2), Some (stop 3)] ''tsp'') =
     Status200
       \<lparr>optimizedRoute = [Some (stop 0), Some (stop 1), Some (stop 2), Some (stop 3)],
        optimizedMetrics = \<lparr>totalDistance = 3 / 1000, totalTime = 3 / 60,
                            fuelSavingsPercentage = Some ''23.08''\<rparr>,
        optimizedAlgorithm = ''tsp''\<rparr>"
  using optimizeRoute_scenario_dijkstra optimizeRoute_scenario_tsp by simp

section \<open>Rounding to doubles\<close>

lemma pow2_powi: "pow2 k = 2 powi k"
proof (induction k rule: pow2.induct)
  case (1 k)
  show ?case
  proof (cases "k < 0")
    case True
    then have "pow2 k = 1 / pow2 (- k)" by (subst pow2.simps) simp
    also from "1.IH"(1) [OF True] have "\<dots> = 1 / 2 powi (- k)" by simp
    also have "\<dots> = 2 powi k" by (simp add: power_int_minus field_simps)
    finally show ?thesis .
  next
    case False
    show ?thesis
    proof (cases "k = 0")
      case True
      then show ?thesis by (subst pow2.simps) simp
    next
      case nz: False
      from "1.IH"(2) [OF False nz] have h: "pow2 (k div 2) = 2 powi (k div 2)" .
      have sq: "(2::rat) powi (k div 2) * 2 powi (k div 2) = 2 powi (2 * (k div 2))"
        by (simp add: power_int_add [symmetric])
      show ?thesis
      proof (cases "even k")
        case True
        then have "2 * (k div 2) = k" by simp
        with sq have "(2::rat) powi (k div 2) * 2 powi (k div 2) = 2 powi k" by simp
        with False nz True h show ?thesis by (subst pow2.simps) (simp add: Let_def)
      next
        case odd: False
        then have "2 * (k div 2) + 1 = k" by simp
        then have "(2::rat) powi k = 2 powi (2 * (k div 2)) * 2"
          by (metis power_int_add_1 zero_neq_numeral)
        with sq have "2 * 2 powi (k div 2) * 2 powi (k div 2) = (2::rat) powi k" by simp
        with False nz odd h show ?thesis by (subst pow2.simps) (simp add: Let_def)
      qed
    qed
  qed
qed

lemma bitLength_bounds:
  "0 < n \<Longrightarrow> 0 < bitLength n \<and> 2 ^ nat (bitLength n - 1) \<le> n \<and> n < 2 ^ nat (bitLength n)"
proof (induction n rule: bitLength.induct)
  case (1 n)
  from "1.prems" have unfold: "bitLength n = bitLength (n div 2) + 1"
    by (subst bitLength.simps) simp
  show ?case
  proof (cases "n div 2 = 0")
    case True
    with "1.prems" have "n = 1" by presburger
    moreover have "bitLength 0 = 0" by (subst bitLength.simps) simp
    ultimately show ?thesis using unfold True by simp
  next
    case False
    with "1.prems" have pos: "0 < n div 2" by presburger
    from "1.prems" have "\<not> n \<le> 0" by simp
    from "1.IH" [OF this pos] have b: "0 < bitLength (n div 2)"
      and lo: "2 ^ nat (bitLength (n div 2) - 1) \<le> n div 2"
      and hi: "n div 2 < 2 ^ nat (bitLength (n div 2))" by simp_all
    from b have e1: "nat (bitLength (n div 2)) = Suc (nat (bitLength (n div 2) - 1))"
      by simp
    from b have e2: "nat (bitLength (n div 2) + 1) = Suc (nat (bitLength (n div 2)))"
      by simp
    have "2 * (n div 2) \<le> n" by presburger
    with lo have "2 * 2 ^ nat (bitLength (n div 2) - 1) \<le> n" by linarith
    then have lo': "2 ^ nat (bitLength n - 1) \<le> n" by (simp add: unfold e1)
    have "n < 2 * (n div 2) + 2" by presburger
    with hi have "n < 2 * 2 ^ nat (bitLength (n div 2))" by linarith
    then have hi': "n < 2 ^ nat (bitLength n)" by (simp add: unfold e2)
    from b lo' hi' show ?thesis by (simp add: unfold)
  qed
qed

lemma bitLength_rat:
  assumes "0 < n"
  shows "(2::rat) powi (bitLength n - 1) \<le> of_int n" and "(of_int n :: rat) < 2 powi (bitLength n)"
proof -
  from bitLength_bounds [OF assms] have b: "0 < bitLength n"
    and lo: "2 ^ nat (bitLength n - 1) \<le> n" and hi: "n < 2 ^ nat (bitLength n)" by simp_all
  from lo have "(of_int (2 ^ nat (bitLength n - 1)) :: rat) \<le> of_int n" by (simp only: of_int_le_iff)
  with b show "(2::rat) powi (bitLength n - 1) \<le> of_int n" by (simp add: power_int_def)
  from hi have "(of_int n :: rat) < of_int (2 ^ nat (bitLength n))" by (simp only: of_int_less_iff)
  with b show "(of_int n :: rat) < 2 powi (bitLength n)" by (simp add: power_int_def)
qed

text \<open>\<open>floorLog2 x\<close> is the binary exponent of a positive \<open>x\<close>.\<close>

lemma floorLog2_le:
  assumes "0 < x"
  shows "2 powi (floorLog2 x) \<le> x"
proof -
  obtain p q where pq: "quotient_of x = (p, q)" by (cases "quotient_of x")
  from quotient_of_denom_pos [OF pq] have q: "0 < q" .
  from quotient_of_div [OF pq] have x: "x = of_int p / of_int q" .
  with assms q have p: "0 < p" by (simp add: zero_less_divide_iff)
  let ?k = "bitLength p - bitLength q"
  show ?thesis
  proof (cases "2 powi ?k \<le> x")
    case True
    with pq show ?thesis by (simp add: floorLog2_def pow2_powi)
  next
    case False
    have "(2::rat) powi (?k - 1) = 2 powi (bitLength p - 1) / 2 powi (bitLength q)"
      by (simp add: power_int_diff [symmetric] algebra_simps)
    also have "\<dots> \<le> of_int p / of_int q"
      using bitLength_rat [OF p] bitLength_rat [OF q] p q
      by (intro frac_le) simp_all
    finally have "(2::rat) powi (?k - 1) \<le> x" by (simp add: x)
    with False pq show ?thesis by (simp add: floorLog2_def pow2_powi)
  qed
qed

lemma floorLog2_less:
  assumes "0 < x"
  shows "x < 2 powi (floorLog2 x + 1)"
proof -
  obtain p q where pq: "quotient_of x = (p, q)" by (cases "quotient_of x")
  from quotient_of_denom_pos [OF pq] have q: "0 < q" .
  from quotient_of_div [OF pq] have x: "x = of_int p / of_int q" .
  with assms q have p: "0 < p" by (simp add: zero_less_divide_iff)
  let ?k = "bitLength p - bitLength q"
  show ?thesis
  proof (cases "2 powi ?k \<le> x")
    case True
    have pos: "(0::rat) < 2 powi (bitLength q - 1)" by (rule zero_less_power_int) simp
    have "of_int p / of_int q < (2::rat) powi (bitLength p) / 2 powi (bitLength q - 1)"
      using bitLength_rat [OF p] bitLength_rat [OF q] p pos
      by (intro frac_less) simp_all
    also have "\<dots> = 2 powi (?k + 1)"
      by (simp add: power_int_diff [symmetric] algebra_simps)
    finally have "x < 2 powi (?k + 1)" by (simp add: x)
    with True pq show ?thesis by (simp add: floorLog2_def pow2_powi)
  next
    case False
    with pq show ?thesis by (simp add: floorLog2_def pow2_powi)
  qed
qed

lemma roundHalfEven_near: "\<bar>of_int (roundHalfEven x) - x\<bar> \<le> 1 / 2"
proof -
  have "of_int \<lfloor>x\<rfloor> \<le> x" "x < of_int \<lfloor>x\<rfloor> + 1" by linarith+
  then show ?thesis by (auto simp: roundHalfEven_def Let_def)
qed


lemma overflowThreshold_powi: "overflowThreshold = 2 powi 1024"
  by (simp only: overflowThreshold_def pow2_powi)

lemma doubleOf_rounds:
  assumes nz: "x \<noteq> 0" and lo: "2 powi (- 1022) \<le> \<bar>x\<bar>"
  obtains e :: int and m :: int and y :: rat where "2 powi e \<le> \<bar>x\<bar>"
    and "m = roundHalfEven (\<bar>x\<bar> / 2 powi (e - 52))"
    and "y = of_int m * 2 powi (e - 52)"
    and "\<bar>y - \<bar>x\<bar>\<bar> \<le> \<bar>x\<bar> / 2 ^ 53"
    and "doubleOf x =
      (if overflowThreshold \<le> y then DInf (0 < x) else DFinite (if 0 < x then y else - y))"
proof -
  define a where "a = \<bar>x\<bar>"
  define e where "e = max (floorLog2 a) (- 1022)"
  define ulp :: rat where "ulp = 2 powi (e - 52)"
  define m where "m = roundHalfEven (a / ulp)"
  define y :: rat where "y = of_int m * ulp"
  from nz have a: "0 < a" by (simp add: a_def)
  have pow_e: "2 powi e \<le> a"
  proof (cases "floorLog2 a \<le> - 1022")
    case True
    then have "e = - 1022" by (simp add: e_def)
    with lo show ?thesis by (simp only: a_def)
  next
    case False
    then have "e = floorLog2 a" by (simp add: e_def)
    with floorLog2_le [OF a] show ?thesis by simp
  qed
  have ulp: "0 < ulp" by (simp add: ulp_def)
  have half: "1 / 2 * ulp = 2 powi e / 2 ^ 53"
  proof -
    have "(2::rat) powi (e - 53) = 2 powi e / 2 powi 53"
      by (rule power_int_diff) simp
    moreover have "(2::rat) powi (e - 53) = 2 powi (e - 52) / 2 powi 1"
      using power_int_diff [of "2::rat" "e - 52" 1] by simp
    ultimately show ?thesis by (simp add: ulp_def)
  qed
  have "\<bar>y - a\<bar> = \<bar>of_int m - a / ulp\<bar> * ulp"
  proof -
    from ulp have "of_int m * ulp - a = (of_int m - a / ulp) * ulp"
      by (simp add: field_simps)
    with ulp show ?thesis by (simp add: abs_mult y_def)
  qed
  also from roundHalfEven_near [of "a / ulp"] ulp have "\<dots> \<le> 1 / 2 * ulp"
    unfolding m_def by (intro mult_right_mono) simp_all
  also from half pow_e have "\<dots> \<le> a / 2 ^ 53"
    by (simp only: divide_right_mono zero_le_numeral zero_le_power)
  finally have near: "\<bar>y - a\<bar> \<le> a / 2 ^ 53" .
  from nz have "doubleOf x =
      (if overflowThreshold \<le> y then DInf (0 < x) else DFinite (if 0 < x then y else - y))"
    by (simp add: doubleOf_def Let_def pow2_powi y_def m_def ulp_def e_def a_def)
  with pow_e near show ?thesis
    using that [of e m y] unfolding ulp_def a_def m_def y_def by blast
qed

lemma doubleOf_accurate:
  assumes lo: "2 powi (- 1022) \<le> \<bar>x\<bar>" and hi: "\<bar>x\<bar> * (1 + 1 / 2 ^ 53) < overflowThreshold"
  shows "\<exists>y. doubleOf x = DFinite y \<and> \<bar>y - x\<bar> \<le> \<bar>x\<bar> / 2 ^ 53"
proof -
  have "(0::rat) < 2 powi (- 1022)" by (rule zero_less_power_int) simp
  with lo have nz: "x \<noteq> 0" by auto
  from doubleOf_rounds [OF nz lo] obtain y where
    near: "\<bar>y - \<bar>x\<bar>\<bar> \<le> \<bar>x\<bar> / 2 ^ 53"
    and res: "doubleOf x =
      (if overflowThreshold \<le> y then DInf (0 < x) else DFinite (if 0 < x then y else - y))"
    by blast
  from near have "y \<le> \<bar>x\<bar> + \<bar>x\<bar> / 2 ^ 53" by linarith
  also have "\<dots> = \<bar>x\<bar> * (1 + 1 / 2 ^ 53)" by (simp add: algebra_simps)
  finally have "\<not> overflowThreshold \<le> y" using hi by linarith
  with res have r: "doubleOf x = DFinite (if 0 < x then y else - y)" by simp
  have "\<bar>(if 0 < x then y else - y) - x\<bar> = \<bar>y - \<bar>x\<bar>\<bar>"
    using nz by (cases "0 < x") (simp_all add: abs_minus_commute)
  with near r show ?thesis by simp
qed




section \<open>The fuel savings figure\<close>

lemma natToString_23: "natToString 23 = ''23''"
  by code_simp

lemma digitChar_0: "digitChar 0 = CHR ''0''"
  by code_simp

lemma digitChar_8: "digitChar 8 = CHR ''8''"
  by code_simp

lemma toFixed2_range:
  assumes "23075 / 1000 \<le> x" and "x < 23085 / 1000"
  shows "toFixed2 x = ''23.08''"
proof -
  from assms(1) have pos: "0 \<le> x" by linarith
  then have ab: "\<bar>x\<bar> = x" by simp
  have "\<lfloor>x * 100 + 1 / 2\<rfloor> = 2308"
    using assms by (intro floor_unique) simp_all
  then have n: "nat \<lfloor>x * 100 + 1 / 2\<rfloor> = 2308" by simp
  have "\<not> x < 0" using pos by simp
  then show ?thesis
    by (simp add: toFixed2_def Let_def ab n natToString_23 digitChar_0 digitChar_8)
qed

lemma tiny_double: "(2::rat) powi (- 1022) \<le> 1 / 100"
proof -
  have "(2::rat) powi (- 1022) \<le> 2 powi (- 7)" by (rule power_int_increasing) simp_all
  also have "\<dots> = 1 / 128" by (simp add: power_int_minus)
  finally show ?thesis by simp
qed

lemma overflowThreshold_double: "overflowThreshold = 2 * 2 ^ 1023"
proof -
  have "(2::rat) powi (1023 + 1) = 2 powi 1023 * 2 powi 1" by (rule power_int_add) simp
  then have "(2::rat) powi 1024 = 2 powi 1023 * 2" by simp
  then show ?thesis by (simp only: overflowThreshold_powi power_int_numeral mult.commute)
qed

text \<open>
  Between a hundredth and one and a half times \<open>2\<^sup>1\<^sup>0\<^sup>2\<^sup>3\<close> the double of a number is finite
  and within one part in a million of it.
\<close>

lemma doubleOf_bounds:
  assumes lo: "1 / 100 \<le> x" and hi: "x \<le> 3 / 2 * P" and P: "P = 2 ^ 1023"
  shows "\<exists>y. doubleOf x = DFinite y \<and> x * (999999 / 1000000) \<le> y \<and> y \<le> x * (1000001 / 1000000)"
proof -
  from lo have pos: "0 < x" and ab: "\<bar>x\<bar> = x" by simp_all
  from tiny_double lo ab have lo': "2 powi (- 1022) \<le> \<bar>x\<bar>" by linarith
  have eps: "(1::rat) / 2 ^ 53 \<le> 1 / 1000000" by simp
  have "x * (1 + 1 / 2 ^ 53) \<le> x * (1 + 1 / 1000000)"
    using pos eps by (intro mult_left_mono) simp_all
  also have "\<dots> = x + x / 1000000" by (simp add: algebra_simps)
  also from hi pos have "\<dots> < 2 * P" by linarith
  finally have hi': "\<bar>x\<bar> * (1 + 1 / 2 ^ 53) < overflowThreshold"
    by (simp only: ab overflowThreshold_double P)
  from doubleOf_accurate [OF lo' hi'] obtain y where
    y: "doubleOf x = DFinite y" "\<bar>y - x\<bar> \<le> \<bar>x\<bar> / 2 ^ 53" by blast
  have "x / 2 ^ 53 = x * (1 / 2 ^ 53)" by simp
  also from pos eps have "\<dots> \<le> x * (1 / 1000000)" by (intro mult_left_mono) simp_all
  finally have "x / 2 ^ 53 \<le> x / 1000000" by simp
  with y(2) ab have "\<bar>y - x\<bar> \<le> x / 1000000" by linarith
  then have "x * (999999 / 1000000) \<le> y" "y \<le> x * (1000001 / 1000000)" by linarith+
  with y(1) show ?thesis by blast
qed

lemma fuelSavings_constant:
  assumes lo: "1 \<le> d" and hi: "d \<le> 2 ^ 1023"
  shows "fuelSavings (DFinite d) = ''23.08''"
proof -
  define P :: rat where "P = 2 ^ 1023"
  have P: "P = 2 ^ 1023" by (rule P_def)
  from hi have dP: "d \<le> P" unfolding P_def .
  have "(2::rat) ^ 4 \<le> 2 ^ 1023" by (rule power_increasing) simp_all
  then have P1: "32 / 2 \<le> P" unfolding P_def by simp
  note dbl = doubleOf_bounds [OF _ _ P]
  from P1 have "(13::rat) / 10 \<le> 3 / 2 * P" by linarith
  from dbl [OF _ this] obtain c where
    c_eq: "doubleOf (13 / 10) = DFinite c"
    and c: "1299998 / 1000000 \<le> c" "c \<le> 1300002 / 1000000" by auto
  from lo have t: "0 < d" by simp
  from t c(1) have tc_lo: "d * (1299998 / 1000000) \<le> d * c" by (intro mult_left_mono) simp_all
  from t c(2) have tc_hi: "d * c \<le> d * (1300002 / 1000000)" by (intro mult_left_mono) simp_all
  define tc where "tc = d * c"
  from tc_lo tc_hi lo dP have tc: "1 / 100 \<le> tc" "tc \<le> 3 / 2 * P"
    and tc': "d * (1299998 / 1000000) \<le> tc" "tc \<le> d * (1300002 / 1000000)"
    unfolding tc_def by linarith+
  from dbl [OF tc] obtain est where
    est_eq: "doubleOf tc = DFinite est"
    and est0: "tc * (999999 / 1000000) \<le> est" "est \<le> tc * (1000001 / 1000000)" by blast
  from est0 tc' t have est: "d * (1299996 / 1000000) \<le> est" "est \<le> d * (1300004 / 1000000)"
    by linarith+
  define df where "df = est - d"
  from est t have df: "d * (299996 / 1000000) \<le> df" "df \<le> d * (300004 / 1000000)"
    unfolding df_def by linarith+
  from df lo dP have "1 / 100 \<le> df" "df \<le> 3 / 2 * P" by linarith+
  from dbl [OF this] obtain saved where
    saved_eq: "doubleOf df = DFinite saved"
    and saved0: "df * (999999 / 1000000) \<le> saved" "saved \<le> df * (1000001 / 1000000)" by blast
  from saved0 df t have saved: "d * (299995 / 1000000) \<le> saved" "saved \<le> d * (300005 / 1000000)"
    by linarith+
  from est t have est_pos: "0 < est" by linarith
  have ratio_lo: "230764 / 1000000 \<le> saved / est"
  proof -
    from est saved t have "230764 / 1000000 * est \<le> saved" by linarith
    with est_pos show ?thesis by (simp add: pos_le_divide_eq)
  qed
  have ratio_hi: "saved / est \<le> 230775 / 1000000"
  proof -
    from est saved t have "saved \<le> 230775 / 1000000 * est" by linarith
    with est_pos show ?thesis by (simp add: pos_divide_le_eq)
  qed
  define r where "r = saved / est"
  from ratio_lo ratio_hi have r: "230764 / 1000000 \<le> r" "r \<le> 230775 / 1000000"
    unfolding r_def by simp_all
  from r P1 have "1 / 100 \<le> r" "r \<le> 3 / 2 * P" by linarith+
  from dbl [OF this] obtain q where
    q_eq: "doubleOf r = DFinite q"
    and q0: "r * (999999 / 1000000) \<le> q" "q \<le> r * (1000001 / 1000000)" by blast
  from q0 r have q: "230763 / 1000000 \<le> q" "q \<le> 230776 / 1000000" by linarith+
  define y where "y = q * 100"
  from q have y: "230763 / 10000 \<le> y" "y \<le> 230776 / 10000"
    unfolding y_def by linarith+
  from y P1 have "1 / 100 \<le> y" "y \<le> 3 / 2 * P" by linarith+
  from dbl [OF this] obtain x where
    x_eq: "doubleOf y = DFinite x"
    and x0: "y * (999999 / 1000000) \<le> x" "x \<le> y * (1000001 / 1000000)" by blast
  from x0 y have x: "23075 / 1000 \<le> x" "x < 23085 / 1000" by linarith+
  from est_pos have est_nz: "est \<noteq> 0" by simp
  have "dMul (DFinite d) (doubleOf (13 / 10)) = DFinite est"
    by (simp add: c_eq est_eq [unfolded tc_def])
  moreover have "dSub (DFinite est) (DFinite d) = DFinite saved"
    by (simp add: saved_eq [unfolded df_def])
  moreover have "dDiv (DFinite saved) (DFinite est) = DFinite q"
    using est_nz by (simp add: q_eq [unfolded r_def])
  moreover have "dMul (DFinite q) (DFinite 100) = DFinite x"
    by (simp add: x_eq [unfolded y_def])
  ultimately have "fuelSavings (DFinite d) = toFixed2 x"
    by (simp add: fuelSavings_def Let_def toFixed_def)
  with toFixed2_range [OF x] show ?thesis by simp
qed


subsection \<open>The running sum of whole metres\<close>







subsection \<open>Whole numbers below \<open>2\<^sup>5\<^sup>3\<close> are doubles\<close>

lemma roundHalfEven_int: "roundHalfEven (of_int z) = z"
  by (simp add: roundHalfEven_def Let_def)

lemma doubleOf_nat_exact:
  assumes "n < 2 ^ 53"
  shows "doubleOf (of_nat n) = DFinite (of_nat n)"
proof (cases "n = 0")
  case True
  then show ?thesis by (simp add: doubleOf_def)
next
  case False
  define x :: rat where "x = of_nat n"
  from False have x1: "1 \<le> x" by (simp add: x_def)
  from assms have "(of_nat n :: rat) < of_nat (2 ^ 53)" by (simp only: of_nat_less_iff)
  then have x53: "x < 2 powi 53" by (simp add: x_def)
  from x1 have ab: "\<bar>x\<bar> = x" and nz: "x \<noteq> 0" and pos: "0 < x" by simp_all
  from tiny_double x1 ab have lo: "2 powi (- 1022) \<le> \<bar>x\<bar>" by linarith
  from doubleOf_rounds [OF nz lo] obtain e :: int and m :: int and y :: rat where
    e: "2 powi e \<le> \<bar>x\<bar>"
    and m: "m = roundHalfEven (\<bar>x\<bar> / 2 powi (e - 52))"
    and y: "y = of_int m * 2 powi (e - 52)"
    and res: "doubleOf x =
      (if overflowThreshold \<le> y then DInf (0 < x) else DFinite (if 0 < x then y else - y))"
    by blast
  have e52: "e \<le> 52"
  proof (rule ccontr)
    assume "\<not> e \<le> 52"
    then have "(2::rat) powi 53 \<le> 2 powi e" by (intro power_int_increasing) simp_all
    with e ab x53 show False by linarith
  qed
  define k where "k = nat (52 - e)"
  from e52 have ek: "e - 52 = - int k" by (simp add: k_def)
  have ulp: "(2::rat) powi (e - 52) = 1 / 2 ^ k"
    by (simp only: ek power_int_minus power_int_of_nat inverse_eq_divide)
  have quot: "\<bar>x\<bar> / 2 powi (e - 52) = of_int (int n * 2 ^ k)"
    by (simp add: ab ulp x_def)
  from m have m': "m = int n * 2 ^ k" by (simp only: quot roundHalfEven_int)
  from y have y': "y = x" by (simp add: m' ulp x_def)
  have "(2::rat) powi 53 \<le> 2 powi 1024" by (intro power_int_increasing) simp_all
  with x53 have "x < overflowThreshold" by (simp only: overflowThreshold_powi)
  with res pos show ?thesis by (simp add: y' x_def)
qed

lemma sumRoute_mono:
  "sumRoute dm is (ds, ts) = Inr (ds', ts') \<Longrightarrow> ds \<le> ds'"
proof (induction "is" arbitrary: ds ts)
  case Nil
  then show ?case by simp
next
  case (Cons i rest)
  show ?case
  proof (cases "legAt dm i")
    case (Inl err)
    with Cons.prems show ?thesis by simp
  next
    case (Inr leg)
    obtain metres seconds where leg: "leg = (metres, seconds)" by (cases leg)
    from Cons.prems Inr leg
    have "sumRoute dm rest (ds + metres, ts + seconds) = Inr (ds', ts')" by simp
    from Cons.IH [OF this] show ?thesis by simp
  qed
qed

text \<open>While the whole-number sum stays below \<open>2\<^sup>5\<^sup>3\<close> the running double is that sum.\<close>

lemma sumMetres_exact:
  "sumRoute dm is (ds, ts) = Inr (ds', ts') \<Longrightarrow> ds' < 2 ^ 53 \<Longrightarrow>
   sumMetres dm is (DFinite (of_nat ds)) = Inr (DFinite (of_nat ds'))"
proof (induction "is" arbitrary: ds ts)
  case Nil
  then show ?case by simp
next
  case (Cons i rest)
  show ?case
  proof (cases "legAt dm i")
    case (Inl err)
    with Cons.prems show ?thesis by simp
  next
    case (Inr leg)
    obtain metres seconds where leg: "leg = (metres, seconds)" by (cases leg)
    from Cons.prems(1) Inr leg
    have run: "sumRoute dm rest (ds + metres, ts + seconds) = Inr (ds', ts')" by simp
    from sumRoute_mono [OF run] Cons.prems(2)
    have small: "ds + metres < 2 ^ 53" and leg_small: "metres < 2 ^ 53" by simp_all
    have "dAdd (DFinite (of_nat ds)) (doubleOf (of_nat metres)) = doubleOf (of_nat (ds + metres))"
      by (simp add: doubleOf_nat_exact [OF leg_small])
    also have "\<dots> = DFinite (of_nat (ds + metres))" by (rule doubleOf_nat_exact [OF small])
    finally have step:
      "dAdd (DFinite (of_nat ds)) (doubleOf (of_nat metres)) = DFinite (of_nat (ds + metres))" .
    from Cons.IH [OF run Cons.prems(2)] Inr leg step show ?thesis by simp
  qed
qed

lemma doubleTotal_exact:
  assumes "routeTotals e route = Inr (distanceSum, timeSum)" and "distanceSum < 2 ^ 53"
  shows "doubleTotal e route = Inr (DFinite (of_nat distanceSum))"
proof (cases "getDistanceMatrix e route True")
  case (Inl err)
  with assms(1) show ?thesis by (simp add: routeTotals_def)
next
  case (Inr dm)
  with assms(1) have "sumRoute dm [0..<length route - 1] (0, 0) = Inr (distanceSum, timeSum)"
    by (simp add: routeTotals_def)
  from sumMetres_exact [OF this assms(2)] Inr show ?thesis by (simp add: doubleTotal_def)
qed

text \<open>
  Hence the figure is 23.08 for every positive whole-number sum of legs below \<open>2\<^sup>5\<^sup>3\<close>
  metres.
\<close>

lemma fuelSavings_whole_sum:
  assumes "routeTotals e route = Inr (distanceSum, timeSum)"
    and "0 < distanceSum" and "distanceSum < 2 ^ 53"
  shows "fuelFigureOf (calculateTSPRouteMetrics e route) = Some ''23.08''"
proof -
  from assms(3) have "(of_nat distanceSum :: rat) < of_nat (2 ^ 53)" by (simp only: of_nat_less_iff)
  then have "(of_nat distanceSum :: rat) < 2 ^ 53" by simp
  moreover have "(2::rat) ^ 53 \<le> 2 ^ 1023" by (rule power_increasing) simp_all
  ultimately have hi: "(of_nat distanceSum :: rat) \<le> 2 ^ 1023" by linarith
  from assms(2) have lo: "(1::rat) \<le> of_nat distanceSum" by simp
  from fuelSavings_constant [OF lo hi] assms(1) doubleTotal_exact [OF assms(1,3)]
  show ?thesis by (simp add: fuelFigureOf_def calculateTSPRouteMetrics_def)
qed

subsection \<open>A leg of \<open>7 \<sqdot> 2\<^sup>1\<^sup>0\<^sup>2\<^sup>1\<close> metres\<close>










end
